theory Spec2Isabelle
  imports Main "HOL-Library.Word"
begin

section \<open>The Duke Script loader of RigelEngine (src/loader/duke_script_loader.cpp)\<close>

text \<open>
  The loader turns the text of a script file into a bundle of named scripts, each an
  ordered list of actions. It is written on top of the C++ stream library:
  \<^verbatim>\<open>istringstream\<close> objects with an input position and the state bits
  \<^verbatim>\<open>eofbit\<close> and \<^verbatim>\<open>failbit\<close>. The embedding keeps that shape. A stream is a record of
  the buffer, the position and the two bits; every library call the loader makes is a
  function from the stream to its result and the stream afterwards; every
  \<^verbatim>\<open>throw\<close> is a value \<open>Inl e\<close> of a sum type.
\<close>

subsection \<open>Integers and characters\<close>

text \<open>
  A C++ \<^verbatim>\<open>int\<close> is a 32-bit word, read as two's complement by \<open>sint\<close>; \<open>+\<close> wraps.
\<close>

type_synonym cint = "32 word"

definition INT_MAX :: int where
  "INT_MAX = 2147483647"

definition INT_MIN :: int where
  "INT_MIN = - 2147483648"

text \<open>
  \<^verbatim>\<open>std::isspace\<close> and the \<^verbatim>\<open>space\<close> class of the classic locale: the blank and the
  five control characters 0x09 to 0x0D. A byte above 0x7F is never white space.
\<close>

definition isspace :: "char \<Rightarrow> bool" where
  "isspace c \<longleftrightarrow> c = CHR '' '' \<or> (9 \<le> (of_char c :: nat) \<and> (of_char c :: nat) \<le> 13)"

definition isdigit :: "char \<Rightarrow> bool" where
  "isdigit c \<longleftrightarrow> 48 \<le> (of_char c :: nat) \<and> (of_char c :: nat) \<le> 57"

text \<open>The value of a string of decimal digits.\<close>

definition decimal :: "string \<Rightarrow> int" where
  "decimal ds = foldl (\<lambda>a c. 10 * a + (int (of_char c) - 48)) 0 ds"

subsection \<open>Strings (boost::algorithm)\<close>

definition trim_left :: "string \<Rightarrow> string" where
  "trim_left str = dropWhile isspace str"

definition trim_right :: "string \<Rightarrow> string" where
  "trim_right str = rev (dropWhile isspace (rev str))"

definition trim :: "string \<Rightarrow> string" where
  "trim str = trim_left (trim_right str)"

definition starts_with :: "string \<Rightarrow> string \<Rightarrow> bool" where
  "starts_with str prefix \<longleftrightarrow> take (length prefix) str = prefix"

definition isCommand :: "string \<Rightarrow> bool" where
  "isCommand line \<longleftrightarrow> starts_with line ''//''"

definition stripCommandPrefix :: "string \<Rightarrow> string" where
  "stripCommandPrefix line = dropWhile (\<lambda>c. c = CHR ''/'') line"

subsection \<open>Errors\<close>

text \<open>
  \<open>invalid_argument msg\<close> is a \<^verbatim>\<open>std::invalid_argument\<close> thrown by the loader, with
  its message. \<^verbatim>\<open>std::stoi\<close> throws its own two exceptions. \<open>assertion_failed\<close> is
  the \<^verbatim>\<open>assert\<close> of the loader aborting the program, in a build that compiles
  assertions in. \<open>out_of_range_iterator\<close> marks an iterator moved beyond the end of its
  string, where the C++ program has no defined behaviour.
\<close>

datatype error =
    invalid_argument string
  | stoi_invalid_argument
  | stoi_out_of_range
  | assertion_failed
  | out_of_range_iterator

subsection \<open>Input streams\<close>

record istream =
  buf :: string
  gpos :: nat
  eofbit :: bool
  failbit :: bool

definition istringstream :: "string \<Rightarrow> istream" where
  "istringstream str = \<lparr>buf = str, gpos = 0, eofbit = False, failbit = False\<rparr>"

definition good :: "istream \<Rightarrow> bool" where
  "good s \<longleftrightarrow> \<not> eofbit s \<and> \<not> failbit s"

text \<open>The characters not yet read.\<close>

definition remaining :: "istream \<Rightarrow> string" where
  "remaining s = drop (gpos s) (buf s)"

text \<open>
  The \<^verbatim>\<open>sentry\<close> every input function constructs first. On a stream that is not
  good it sets \<^verbatim>\<open>failbit\<close> and the function extracts nothing. A formatted input function
  (\<open>noskipws = False\<close>) skips white space first, and meeting the end of the buffer
  there sets both bits.
\<close>

definition sentry :: "istream \<Rightarrow> bool \<Rightarrow> bool \<times> istream" where
  "sentry s noskipws =
     (if good s then
        (if noskipws then (True, s)
         else (case s\<lparr>gpos := gpos s + length (takeWhile isspace (remaining s))\<rparr> of s1 \<Rightarrow>
                 if gpos s1 < length (buf s1) then (True, s1)
                 else (False, s1\<lparr>eofbit := True, failbit := True\<rparr>)))
      else (False, s\<lparr>failbit := True\<rparr>))"

text \<open>\<^verbatim>\<open>peek()\<close> and \<^verbatim>\<open>get()\<close>; \<open>None\<close> is \<^verbatim>\<open>EOF\<close>.\<close>

definition peek :: "istream \<Rightarrow> char option \<times> istream" where
  "peek s =
     (case sentry s True of
        (False, s1) \<Rightarrow> (None, s1)
      | (True, s1) \<Rightarrow>
          if gpos s1 < length (buf s1) then (Some (buf s1 ! gpos s1), s1)
          else (None, s1\<lparr>eofbit := True\<rparr>))"

definition get :: "istream \<Rightarrow> char option \<times> istream" where
  "get s =
     (case sentry s True of
        (False, s1) \<Rightarrow> (None, s1)
      | (True, s1) \<Rightarrow>
          if gpos s1 < length (buf s1) then (Some (buf s1 ! gpos s1), s1\<lparr>gpos := gpos s1 + 1\<rparr>)
          else (None, s1\<lparr>eofbit := True, failbit := True\<rparr>))"

text \<open>
  \<^verbatim>\<open>std::getline(is, str, delim)\<close>. \<open>old\<close> is the content of \<open>str\<close> before the call,
  which stays when the sentry fails. The delimiter is extracted and dropped. Reaching the
  end of the buffer sets \<^verbatim>\<open>eofbit\<close>; extracting nothing at all sets \<^verbatim>\<open>failbit\<close>.
\<close>

definition getline :: "istream \<Rightarrow> string \<Rightarrow> char \<Rightarrow> string \<times> istream" where
  "getline s old delim =
     (case sentry s True of
        (False, s1) \<Rightarrow> (old, s1)
      | (True, s1) \<Rightarrow>
          (case takeWhile (\<lambda>c. c \<noteq> delim) (remaining s1) of str \<Rightarrow>
             if length str < length (remaining s1)
             then (str, s1\<lparr>gpos := gpos s1 + length str + 1\<rparr>)
             else (str, s1\<lparr>gpos := gpos s1 + length str, eofbit := True,
                          failbit := (str = [])\<rparr>)))"

text \<open>\<^verbatim>\<open>is >> str\<close> for a \<^verbatim>\<open>std::string\<close>: the next white-space delimited token.\<close>

definition extract_string :: "istream \<Rightarrow> string \<Rightarrow> string \<times> istream" where
  "extract_string s old =
     (case sentry s False of
        (False, s1) \<Rightarrow> (old, s1)
      | (True, s1) \<Rightarrow>
          (case takeWhile (\<lambda>c. \<not> isspace c) (remaining s1) of tok \<Rightarrow>
             (tok, s1\<lparr>gpos := gpos s1 + length tok,
                      eofbit := (length tok = length (remaining s1)),
                      failbit := (tok = [])\<rparr>)))"

text \<open>
  \<^verbatim>\<open>is >> n\<close> for an \<^verbatim>\<open>int\<close>: an optional sign and decimal digits. With no digit the
  value is 0 and \<^verbatim>\<open>failbit\<close> is set; a value outside the range of \<^verbatim>\<open>int\<close> is replaced
  by the nearest bound and \<^verbatim>\<open>failbit\<close> is set; when the sentry fails the variable keeps
  its value \<open>old\<close>.
\<close>

definition extract_int :: "istream \<Rightarrow> cint \<Rightarrow> cint \<times> istream" where
  "extract_int s old =
     (case sentry s False of
        (False, s1) \<Rightarrow> (old, s1)
      | (True, s1) \<Rightarrow>
          (case remaining s1 of r \<Rightarrow>
           case (if r \<noteq> [] \<and> (hd r = CHR ''-'' \<or> hd r = CHR ''+'') then 1 else 0) of nsign \<Rightarrow>
           case takeWhile isdigit (drop nsign r) of ds \<Rightarrow>
           case (if nsign = 1 \<and> hd r = CHR ''-'' then - decimal ds else decimal ds) of v \<Rightarrow>
           case s1\<lparr>gpos := gpos s1 + nsign + length ds,
                   eofbit := (nsign + length ds = length r)\<rparr> of s2 \<Rightarrow>
             if ds = [] then (0, s2\<lparr>failbit := True\<rparr>)
             else if INT_MAX < v then (word_of_int INT_MAX, s2\<lparr>failbit := True\<rparr>)
             else if v < INT_MIN then (word_of_int INT_MIN, s2\<lparr>failbit := True\<rparr>)
             else (word_of_int v, s2)))"

text \<open>
  \<^verbatim>\<open>tellg()\<close> gives the position, or -1 (here \<open>None\<close>) on a stream that is not good,
  whose \<^verbatim>\<open>failbit\<close> its sentry sets. \<^verbatim>\<open>seekg(pos)\<close> clears \<^verbatim>\<open>eofbit\<close> first and then
  moves the position, unless the stream has failed; seeking to -1 fails.
\<close>

definition tellg :: "istream \<Rightarrow> nat option \<times> istream" where
  "tellg s =
     (case sentry s True of
        (False, s1) \<Rightarrow> (None, s1)
      | (True, s1) \<Rightarrow> (Some (gpos s1), s1))"

definition seekg :: "istream \<Rightarrow> nat option \<Rightarrow> istream" where
  "seekg s p =
     (case sentry (s\<lparr>eofbit := False\<rparr>) True of
        (False, s1) \<Rightarrow> s1
      | (True, s1) \<Rightarrow>
          (case p of
             None \<Rightarrow> s1\<lparr>failbit := True\<rparr>
           | Some n \<Rightarrow> if n \<le> length (buf s1) then s1\<lparr>gpos := n\<rparr> else s1\<lparr>failbit := True\<rparr>))"

text \<open>
  \<^verbatim>\<open>std::stoi(str)\<close>: leading white space, an optional sign, decimal digits; what
  follows the digits is ignored.
\<close>

definition stoi :: "string \<Rightarrow> error + cint" where
  "stoi str =
     (case dropWhile isspace str of r \<Rightarrow>
      case (if r \<noteq> [] \<and> (hd r = CHR ''-'' \<or> hd r = CHR ''+'') then 1 else 0) of nsign \<Rightarrow>
      case takeWhile isdigit (drop nsign r) of ds \<Rightarrow>
      case (if nsign = 1 \<and> hd r = CHR ''-'' then - decimal ds else decimal ds) of v \<Rightarrow>
        if ds = [] then Inl stoi_invalid_argument
        else if v < INT_MIN \<or> INT_MAX < v then Inl stoi_out_of_range
        else Inr (word_of_int v))"

text \<open>
  The constructor \<^verbatim>\<open>string(str.cbegin() + i, str.cbegin() + j)\<close>. Both iterators must lie
  within the string, up to its end.
\<close>

definition string_range :: "string \<Rightarrow> nat \<Rightarrow> nat \<Rightarrow> error + string" where
  "string_range str i j =
     (if i \<le> j \<and> j \<le> length str then Inr (take (j - i) (drop i str))
      else Inl out_of_range_iterator)"

subsection \<open>The loader: white space\<close>

text \<open>
  \<^verbatim>\<open>while (!sourceStream.eof() && std::isspace(sourceStream.peek())) sourceStream.get();\<close>
\<close>

function skipWhiteSpace :: "istream \<Rightarrow> istream" where
  "skipWhiteSpace sourceStream =
     (if eofbit sourceStream then sourceStream
      else (case peek sourceStream of
              (None, s1) \<Rightarrow> s1
            | (Some c, s1) \<Rightarrow> if isspace c then skipWhiteSpace (snd (get s1)) else s1))"
  by pat_completeness auto
termination
  by (relation "measure (\<lambda>s. length (buf s) - gpos s)")
     (auto simp: peek_def get_def sentry_def split: if_splits)

declare skipWhiteSpace.simps [simp del]

subsection \<open>Actions\<close>

text \<open>
  Modelled from the spec: the declarations of \<^verbatim>\<open>data::script::Action\<close>, of the structs
  it is a variant of, of \<^verbatim>\<open>Script\<close> and of \<^verbatim>\<open>ScriptBundle\<close> are in a header that is
  not among the sources. The fields are in the order in which the loader initialises
  them. A check box definition is the pair \<open>(yPos, id)\<close>.
\<close>

datatype Action =
    FadeIn
  | FadeOut
  | Delay cint
  | AnimateNewsReporter cint
  | StopNewsReporterAnimation
  | DisableMenuFunctionality
  | ShowKeyBindings
  | ShowSaveSlots cint
  | DrawSprite cint cint cint cint
  | ShowFullScreenImage string
  | ShowMenuSelectionIndicator cint
  | DrawText cint cint string
  | DrawBigText cint cint cint string
  | SetPalette string
  | WaitForUserInput
  | EnableTextOffset
  | EnableTimeOutToDemo
  | SetupCheckBoxes cint "(cint \<times> cint) list"
  | ShowMessageBox cint cint cint "string list"
  | PagesDefinition "Action list list"
  | ConfigurePersistentMenuSelection cint
  | ScheduleFadeInBeforeNextWaitState

type_synonym Script = "Action list"

text \<open>
  A bundle maps each name to one script. \<^verbatim>\<open>emplace\<close> on such a container inserts the
  pair only when the key is not there yet.
\<close>

type_synonym ScriptBundle = "string \<rightharpoonup> Script"

definition emplace :: "ScriptBundle \<Rightarrow> string \<Rightarrow> Script \<Rightarrow> ScriptBundle" where
  "emplace bundle name script =
     (case bundle name of None \<Rightarrow> bundle(name \<mapsto> script) | Some _ \<Rightarrow> bundle)"

subsection \<open>parseOneLineAction\<close>

text \<open>
  The XYTEXT command once its text is read (lines 258 to 295): big text when a byte of
  0xF0 or more is found, a sprite when the first byte is 0xEF, plain text otherwise.
\<close>

definition parseOneLineAction_XYTEXT :: "cint \<Rightarrow> cint \<Rightarrow> string \<Rightarrow> error + Action" where
  "parseOneLineAction_XYTEXT x y parameters =
     (case length (takeWhile (\<lambda>ch. \<not> 0xF0 \<le> (of_char ch :: nat)) parameters)
      of numPrecedingCharacters \<Rightarrow>
        if numPrecedingCharacters < length parameters then
          Inr (DrawBigText
                 (x + of_nat numPrecedingCharacters)
                 y
                 (of_nat (of_char (parameters ! numPrecedingCharacters)) - 0xF0)
                 (drop (Suc numPrecedingCharacters) parameters))
        else if (of_char (parameters ! 0) :: nat) = 0xEF then
          (if length parameters < 5 then Inl (invalid_argument ''Corrupt Duke Script file'')
           else
             (case string_range parameters 1 4 of
                Inl e \<Rightarrow> Inl e
              | Inr actorNumberString \<Rightarrow>
                  (case string_range parameters 4 6 of
                     Inl e \<Rightarrow> Inl e
                   | Inr frameNumberString \<Rightarrow>
                       (case stoi actorNumberString of
                          Inl e \<Rightarrow> Inl e
                        | Inr actor \<Rightarrow>
                            (case stoi frameNumberString of
                               Inl e \<Rightarrow> Inl e
                             | Inr frame \<Rightarrow> Inr (DrawSprite (x + 2) (y + 1) actor frame))))))
        else Inr (DrawText x y parameters))"

text \<open>
  The loop of the TOGGS command:
  \<^verbatim>\<open>for (int i = 0; i < count; ++i)\<close>, reading one pair from the line each time.
\<close>

function parseOneLineAction_TOGGS ::
  "cint \<Rightarrow> cint \<Rightarrow> istream \<Rightarrow> (cint \<times> cint) list \<Rightarrow> (cint \<times> cint) list \<times> istream"
where
  "parseOneLineAction_TOGGS i count lineTextStream definitions =
     (if sint i < sint count then
        (case extract_int lineTextStream 0 of (yPos, s1) \<Rightarrow>
         case extract_int s1 0 of (id1, s2) \<Rightarrow>
           parseOneLineAction_TOGGS (i + 1) count s2 (definitions @ [(yPos, id1)]))
      else (definitions, lineTextStream))"
  by pat_completeness auto

lemma sint_succ_below:
  fixes i count :: cint
  assumes "sint i < sint count"
  shows "sint (i + 1) = sint i + 1"
proof -
  have hi: "sint count < 2 ^ 31"
    using sint_lt [of count] by simp
  have lo: "- (2 ^ 31) \<le> sint i"
    using sint_ge [of i] by simp
  have "sint (i + 1) = signed_take_bit 31 (sint i + 1)"
    by (simp add: sint_word_ariths)
  also have "\<dots> = sint i + 1"
    using assms hi lo by (intro signed_take_bit_int_eq_self) auto
  finally show ?thesis .
qed

termination parseOneLineAction_TOGGS
  by (relation "measure (\<lambda>(i, count, s, ds). nat (sint count - sint i))")
     (auto simp: sint_succ_below)

declare parseOneLineAction_TOGGS.simps [simp del]

text \<open>The commands that belong to a block and are refused on a line of their own.\<close>

definition notAllowedHere :: "string list" where
  "notAllowedHere =
     [''APAGE'', ''CENTERWINDOW'', ''CWTEXT'', ''MENU'', ''PAGESEND'', ''PAGESSTART'',
      ''SKLINE'']"

text \<open>The commands \<open>parseOneLineAction\<close> has a branch for.\<close>

definition dispatchedCommands :: "string list" where
  "dispatchedCommands =
     [''FADEIN'', ''FADEOUT'', ''DELAY'', ''BABBLEON'', ''BABBLEOFF'', ''NOSOUNDS'', ''KEYS'',
      ''GETNAMES'', ''PAK'', ''LOADRAW'', ''Z'', ''XYTEXT'', ''GETPAL'', ''WAIT'', ''SHIFTWIN'',
      ''EXITTODEMO'', ''TOGGS'']"

text \<open>
  \<open>parseOneLineAction\<close> gives the action of a command, \<open>None\<close> for a command it
  ignores. \<open>ndebug\<close> says whether the build defines \<^verbatim>\<open>NDEBUG\<close>, which turns
  \<^verbatim>\<open>assert(command != "END")\<close> off. The line stream is local to the line and is not
  read again after the call, so its final state is not returned.
\<close>

definition parseOneLineAction :: "bool \<Rightarrow> string \<Rightarrow> istream \<Rightarrow> error + Action option" where
  "parseOneLineAction ndebug command lineTextStream =
     (if command = ''FADEIN'' then Inr (Some FadeIn)
      else if command = ''FADEOUT'' then Inr (Some FadeOut)
      else if command = ''DELAY'' then
        (case extract_int lineTextStream 0 of (amount, s1) \<Rightarrow>
           if sint amount \<le> 0
           then Inl (invalid_argument ''Invalid DELAY command in Duke Script file'')
           else Inr (Some (Delay amount)))
      else if command = ''BABBLEON'' then
        (case extract_int lineTextStream 0 of (duration, s1) \<Rightarrow>
           if sint duration \<le> 0
           then Inl (invalid_argument ''Invalid BABBLEON command in Duke Script file'')
           else Inr (Some (AnimateNewsReporter duration)))
      else if command = ''BABBLEOFF'' then Inr (Some StopNewsReporterAnimation)
      else if command = ''NOSOUNDS'' then Inr (Some DisableMenuFunctionality)
      else if command = ''KEYS'' then Inr (Some ShowKeyBindings)
      else if command = ''GETNAMES'' then
        (case extract_int lineTextStream 0 of (slot, s1) \<Rightarrow>
           if sint slot < 0 \<or> 8 \<le> sint slot
           then Inl (invalid_argument ''Invalid GETNAMES command in Duke Script file'')
           else Inr (Some (ShowSaveSlots slot)))
      else if command = ''PAK'' then Inr (Some (DrawSprite 0 0 146 0))
      else if command = ''LOADRAW'' then
        (case extract_string lineTextStream [] of (imageName, s1) \<Rightarrow>
           if trim imageName = []
           then Inl (invalid_argument ''Invalid LOADRAW command in Duke Script file'')
           else Inr (Some (ShowFullScreenImage (trim imageName))))
      else if command = ''Z'' then
        (case extract_int lineTextStream 0 of (yPos, s1) \<Rightarrow>
           Inr (Some (ShowMenuSelectionIndicator yPos)))
      else if command = ''XYTEXT'' then
        (case extract_int lineTextStream 0 of (x, s1) \<Rightarrow>
         case extract_int s1 0 of (y, s2) \<Rightarrow>
         case get s2 of (c, s3) \<Rightarrow>
         case getline s3 [] (CHR 0x0D) of (parameters, s4) \<Rightarrow>
           if parameters = [] then Inl (invalid_argument ''Corrupt Duke Script file'')
           else map_sum id Some (parseOneLineAction_XYTEXT x y parameters))
      else if command = ''GETPAL'' then
        (case extract_string lineTextStream [] of (paletteFile, s1) \<Rightarrow>
           if trim paletteFile = []
           then Inl (invalid_argument ''Invalid LOADRAW command in Duke Script file'')
           else Inr (Some (SetPalette (trim paletteFile))))
      else if command = ''WAIT'' then Inr (Some WaitForUserInput)
      else if command = ''SHIFTWIN'' then Inr (Some EnableTextOffset)
      else if command = ''EXITTODEMO'' then Inr (Some EnableTimeOutToDemo)
      else if command = ''TOGGS'' then
        (case extract_int lineTextStream 0 of (xPos, s1) \<Rightarrow>
         case extract_int s1 0 of (count, s2) \<Rightarrow>
         case parseOneLineAction_TOGGS 0 count s2 [] of (definitions, s3) \<Rightarrow>
           Inr (Some (SetupCheckBoxes xPos definitions)))
      else if \<not> ndebug \<and> command = ''END'' then Inl assertion_failed
      else if command \<in> set notAllowedHere then
        Inl (invalid_argument
               (''The command '' @ command @ '' is not allowed in this context''))
      else Inr None)"

subsection \<open>parseScriptLines\<close>

text \<open>
  \<open>parseScriptLines\<close> is a template over the function that consumes a command line.
  One turn of its loop reads a line with \<^verbatim>\<open>getline\<close> and finds what it is, which is
  \<open>readScriptLine\<close>; the loop itself is written once for each of the two functions the
  loader passes, further down. A line that does not start with two slashes is passed over.
\<close>

datatype ScriptLine =
    Exhausted istream
  | EndMarker istream
  | OtherLine istream
  | CommandLine string istream istream

definition readScriptLine :: "istream \<Rightarrow> string \<Rightarrow> ScriptLine" where
  "readScriptLine sourceTextStream endMarker =
     (case getline sourceTextStream [] (CHR 0x0A) of (line0, s1) \<Rightarrow>
        if failbit s1 then Exhausted s1
        else if isCommand (trim line0) then
          (if stripCommandPrefix (trim line0) = endMarker then EndMarker s1
           else (case extract_string (istringstream (stripCommandPrefix (trim line0))) []
                 of (command, lineTextStream) \<Rightarrow> CommandLine (trim command) lineTextStream s1))
        else OtherLine s1)"

text \<open>The exception thrown when the lines run out.\<close>

definition missingEndMarker :: "string \<Rightarrow> error" where
  "missingEndMarker endMarker =
     invalid_argument
       (''Missing end marker '' @ [CHR 0x27] @ endMarker @ [CHR 0x27] @ '' in Duke Script file'')"

subsection \<open>parseMessageBoxTextDefinition\<close>

text \<open>
  The loop of \<open>parseMessageBoxTextDefinition\<close>. \<open>startOfLine\<close> is the position that
  \<^verbatim>\<open>tellg\<close> gave after the last CWTEXT or SKLINE line (or before the first line); any
  other command makes the loop seek back to it and stop.
\<close>

function parseMessageBoxTextDefinition_lines ::
  "istream \<Rightarrow> nat option \<Rightarrow> string list \<Rightarrow> error + string list \<times> istream"
where
  "parseMessageBoxTextDefinition_lines sourceStream startOfLine messageLines =
     (case getline sourceStream [] (CHR 0x0A) of (line0, s1) \<Rightarrow>
        if failbit s1 then Inr (messageLines, s1)
        else if isCommand (trim line0) then
          (case extract_string (istringstream (stripCommandPrefix (trim line0))) []
           of (command, lineTextStream) \<Rightarrow>
             if trim command = ''CWTEXT'' then
               (case get lineTextStream of (c, l1) \<Rightarrow>
                case getline l1 [] (CHR 0x0D) of (messageLine, l2) \<Rightarrow>
                  if messageLine = [] then Inl (invalid_argument ''Corrupt Duke Script file'')
                  else (case tellg s1 of (p, s2) \<Rightarrow>
                          parseMessageBoxTextDefinition_lines s2 p
                            (messageLines @ [trim_right messageLine])))
             else if trim command = ''SKLINE'' then
               (case tellg s1 of (p, s2) \<Rightarrow>
                  parseMessageBoxTextDefinition_lines s2 p (messageLines @ [[]]))
             else Inr (messageLines, seekg s1 startOfLine))
        else parseMessageBoxTextDefinition_lines s1 startOfLine messageLines)"
  by pat_completeness auto

lemma getline_progress:
  assumes "getline s old delim = (str, s1)" and "\<not> failbit s1"
  shows "buf s1 = buf s \<and> gpos s < gpos s1 \<and> gpos s1 \<le> length (buf s)"
proof -
  have le: "length (takeWhile (\<lambda>c. c \<noteq> delim) (remaining s)) \<le> length (buf s) - gpos s"
    using length_takeWhile_le [of "\<lambda>c. c \<noteq> delim" "remaining s"]
    by (simp add: remaining_def)
  from assms have g: "good s"
    by (auto simp: getline_def sentry_def split: if_splits)
  show ?thesis
  proof (cases "length (takeWhile (\<lambda>c. c \<noteq> delim) (remaining s)) < length (remaining s)")
    case True
    with assms g show ?thesis
      by (auto simp: getline_def sentry_def remaining_def)
  next
    case False
    with assms g have ne: "takeWhile (\<lambda>c. c \<noteq> delim) (remaining s) \<noteq> []"
      and s1: "s1 = s\<lparr>gpos := gpos s + length (takeWhile (\<lambda>c. c \<noteq> delim) (remaining s)),
                        eofbit := True, failbit := False\<rparr>"
      by (auto simp: getline_def sentry_def)
    from ne have pos: "0 < length (takeWhile (\<lambda>c. c \<noteq> delim) (remaining s))"
      by simp
    from ne have "remaining s \<noteq> []"
      by auto
    then have "gpos s < length (buf s)"
      by (simp add: remaining_def)
    with le s1 pos show ?thesis by auto
  qed
qed

lemma tellg_position:
  assumes "tellg s = (p, s1)"
  shows "buf s1 = buf s \<and> gpos s1 = gpos s \<and> (\<forall>n. p = Some n \<longrightarrow> n = gpos s)"
  using assms by (auto simp: tellg_def sentry_def split: if_splits)

termination parseMessageBoxTextDefinition_lines
  apply (relation "measure (\<lambda>(s, p, ls). length (buf s) - gpos s)")
     apply simp
  subgoal premises p
    using getline_progress [OF p(1) [symmetric] p(2)] tellg_position [OF p(9) [symmetric]]
    by auto
  subgoal premises p
    using getline_progress [OF p(1) [symmetric] p(2)] tellg_position [OF p(7) [symmetric]]
    by auto
  subgoal premises p
    using getline_progress [OF p(1) [symmetric] p(2)]
    by auto
  done

declare parseMessageBoxTextDefinition_lines.simps [simp del]

definition parseMessageBoxTextDefinition :: "istream \<Rightarrow> error + string list \<times> istream" where
  "parseMessageBoxTextDefinition sourceStream =
     (case tellg sourceStream of (startOfLine, s1) \<Rightarrow>
        parseMessageBoxTextDefinition_lines s1 startOfLine [])"

subsection \<open>parsePagesDefinition\<close>

text \<open>
  The function that \<open>parsePagesDefinition\<close> passes to \<open>parseScriptLines\<close>.
  \<^verbatim>\<open>pages.back()\<close> needs a page to be there.
\<close>

definition parsePagesDefinition_consumeLine ::
  "bool \<Rightarrow> string \<Rightarrow> istream \<Rightarrow> Script list \<Rightarrow> error + Script list"
where
  "parsePagesDefinition_consumeLine ndebug command lineTextStream pages =
     (if command = ''APAGE'' then Inr (pages @ [[]])
      else (case parseOneLineAction ndebug command lineTextStream of
              Inl e \<Rightarrow> Inl e
            | Inr None \<Rightarrow> Inr pages
            | Inr (Some action) \<Rightarrow>
                if pages = [] then Inl out_of_range_iterator
                else Inr (butlast pages @ [last pages @ [action]])))"

text \<open>The loop of \<open>parseScriptLines\<close> for \<open>parsePagesDefinition\<close>.\<close>

function parseScriptLines_PagesDefinition ::
  "bool \<Rightarrow> istream \<Rightarrow> Script list \<Rightarrow> error + Script list \<times> istream"
where
  "parseScriptLines_PagesDefinition ndebug sourceTextStream pages =
     (case readScriptLine sourceTextStream ''PAGESEND'' of
        Exhausted s1 \<Rightarrow> Inl (missingEndMarker ''PAGESEND'')
      | EndMarker s1 \<Rightarrow> Inr (pages, s1)
      | OtherLine s1 \<Rightarrow> parseScriptLines_PagesDefinition ndebug s1 pages
      | CommandLine command lineTextStream s1 \<Rightarrow>
          (case parsePagesDefinition_consumeLine ndebug command lineTextStream pages of
             Inl e \<Rightarrow> Inl e
           | Inr pages1 \<Rightarrow> parseScriptLines_PagesDefinition ndebug s1 pages1))"
  by pat_completeness auto

lemma readScriptLine_position:
  assumes "readScriptLine s endMarker = r"
    and "r = EndMarker s1 \<or> r = OtherLine s1 \<or> r = CommandLine command l s1"
  shows "buf s1 = buf s \<and> gpos s < gpos s1 \<and> gpos s1 \<le> length (buf s) \<and> \<not> failbit s1"
proof -
  obtain line0 s2 where g: "getline s [] (CHR 0x0A) = (line0, s2)"
    by (cases "getline s [] (CHR 0x0A)")
  from assms g have "\<not> failbit s2 \<and> s1 = s2"
    by (auto simp: readScriptLine_def split: if_splits prod.splits)
  with getline_progress [OF g] show ?thesis by simp
qed

lemma readScriptLine_progress:
  shows "readScriptLine s endMarker = EndMarker s1 \<Longrightarrow>
           buf s1 = buf s \<and> gpos s < gpos s1 \<and> gpos s1 \<le> length (buf s) \<and> \<not> failbit s1"
    and "readScriptLine s endMarker = OtherLine s1 \<Longrightarrow>
           buf s1 = buf s \<and> gpos s < gpos s1 \<and> gpos s1 \<le> length (buf s) \<and> \<not> failbit s1"
    and "readScriptLine s endMarker = CommandLine command l s1 \<Longrightarrow>
           buf s1 = buf s \<and> gpos s < gpos s1 \<and> gpos s1 \<le> length (buf s) \<and> \<not> failbit s1"
  by (rule readScriptLine_position, assumption, simp)+

termination parseScriptLines_PagesDefinition
proof (relation "measure (\<lambda>(n, s, ps). length (buf s) - gpos s)", goal_cases)
  case 1
  show ?case by simp
next
  case (2 n s ps s1)
  from readScriptLine_progress(2) [OF 2] show ?case by auto
next
  case (3 n s ps command l s1 ps1)
  from readScriptLine_progress(3) [OF 3(1)] show ?case by auto
qed

declare parseScriptLines_PagesDefinition.simps [simp del]

definition parsePagesDefinition :: "bool \<Rightarrow> istream \<Rightarrow> error + Script list \<times> istream" where
  "parsePagesDefinition ndebug sourceTextStream =
     parseScriptLines_PagesDefinition ndebug (skipWhiteSpace sourceTextStream) [[]]"

subsection \<open>The loader never moves backwards\<close>

text \<open>
  Each function below leaves the buffer of the source stream as it is and returns a
  position that is not before the one it was called at: \<open>seekg\<close> only goes back to a
  position that \<open>tellg\<close> gave during the same call. The loops over the source rest on
  this to end.
\<close>

lemma skipWhiteSpace_position:
  "buf (skipWhiteSpace s) = buf s \<and> gpos s \<le> gpos (skipWhiteSpace s)"
proof (induction s rule: skipWhiteSpace.induct)
  case (1 s)
  show ?case
  proof (cases "eofbit s")
    case True
    then show ?thesis by (simp add: skipWhiteSpace.simps)
  next
    case False
    obtain c s1 where pk: "peek s = (c, s1)" by (cases "peek s")
    then have s1: "buf s1 = buf s \<and> gpos s1 = gpos s"
      by (auto simp: peek_def sentry_def split: if_splits)
    show ?thesis
    proof (cases "\<exists>ch. c = Some ch \<and> isspace ch")
      case True
      then obtain ch where ch: "c = Some ch" "isspace ch" by blast
      have g: "buf (snd (get s1)) = buf s1 \<and> gpos s1 \<le> gpos (snd (get s1))"
        by (auto simp: get_def sentry_def split: if_splits)
      from "1.IH" [OF False pk [symmetric] ch]
      have "buf (skipWhiteSpace (snd (get s1))) = buf (snd (get s1)) \<and>
            gpos (snd (get s1)) \<le> gpos (skipWhiteSpace (snd (get s1)))"
        by simp
      with g s1 False pk ch show ?thesis
        by (simp add: skipWhiteSpace.simps [of s])
    next
      case no: False
      with False pk s1 show ?thesis
        by (cases c) (auto simp: skipWhiteSpace.simps [of s])
    qed
  qed
qed

lemma seekg_position:
  "buf (seekg s p) = buf s \<and> (gpos (seekg s p) = gpos s \<or> p = Some (gpos (seekg s p)))"
  by (auto simp: seekg_def sentry_def split: option.splits)

lemma parseMessageBoxTextDefinition_lines_position:
  assumes "parseMessageBoxTextDefinition_lines s startOfLine messageLines = Inr (ls, s')"
    and "\<forall>n. startOfLine = Some n \<longrightarrow> lo \<le> n"
    and "lo \<le> gpos s"
  shows "buf s' = buf s \<and> lo \<le> gpos s'"
  using assms
proof (induction s startOfLine messageLines rule: parseMessageBoxTextDefinition_lines.induct)
  case (1 s startOfLine messageLines)
  obtain line0 s1 where gl: "getline s [] (CHR 0x0A) = (line0, s1)"
    by (cases "getline s [] (CHR 0x0A)")
  have gl_pos: "buf s1 = buf s \<and> gpos s \<le> gpos s1"
    using gl by (auto simp: getline_def sentry_def split: if_splits)
  show ?case
  proof (cases "failbit s1")
    case True
    with "1.prems" gl gl_pos show ?thesis
      by (simp add: parseMessageBoxTextDefinition_lines.simps [of s])
  next
    case nf: False
    show ?thesis
    proof (cases "isCommand (trim line0)")
      case False
      with "1.prems"(1) gl nf
      have "parseMessageBoxTextDefinition_lines s1 startOfLine messageLines = Inr (ls, s')"
        by (simp add: parseMessageBoxTextDefinition_lines.simps [of s])
      from "1.IH"(3) [OF gl [symmetric] nf False this "1.prems"(2)] "1.prems"(3) gl_pos
      show ?thesis by simp
    next
      case cmd: True
      obtain command lineTextStream
        where ex: "extract_string (istringstream (stripCommandPrefix (trim line0))) [] =
                   (command, lineTextStream)"
        by (cases "extract_string (istringstream (stripCommandPrefix (trim line0))) []")
      obtain p s2 where tg: "tellg s1 = (p, s2)" by (cases "tellg s1")
      note tp = tellg_position [OF tg]
      have p_lo: "\<forall>n. p = Some n \<longrightarrow> lo \<le> n"
        using tp gl_pos "1.prems"(3) by auto
      have s2_lo: "lo \<le> gpos s2"
        using tp gl_pos "1.prems"(3) by auto
      consider (cw) "trim command = ''CWTEXT''" | (sk) "trim command = ''SKLINE''"
        | (other) "trim command \<noteq> ''CWTEXT''" "trim command \<noteq> ''SKLINE''"
        by blast
      then show ?thesis
      proof cases
        case cw
        obtain c l1 where gt: "get lineTextStream = (c, l1)" by (cases "get lineTextStream")
        obtain messageLine l2 where g2: "getline l1 [] (CHR 0x0D) = (messageLine, l2)"
          by (cases "getline l1 [] (CHR 0x0D)")
        from "1.prems"(1) gl nf cmd ex cw gt g2 tg
        have ne: "messageLine \<noteq> []"
          and rec: "parseMessageBoxTextDefinition_lines s2 p
                      (messageLines @ [trim_right messageLine]) = Inr (ls, s')"
          by (auto simp: parseMessageBoxTextDefinition_lines.simps [of s] split: if_splits)
        from "1.IH"(1) [OF gl [symmetric] nf cmd ex [symmetric] cw gt [symmetric]
            g2 [symmetric] ne tg [symmetric] rec p_lo s2_lo] tp gl_pos
        show ?thesis by simp
      next
        case sk
        then have ncw: "trim command \<noteq> ''CWTEXT''" by simp
        from "1.prems"(1) gl nf cmd ex sk tg
        have rec: "parseMessageBoxTextDefinition_lines s2 p (messageLines @ [[]]) = Inr (ls, s')"
          by (auto simp: parseMessageBoxTextDefinition_lines.simps [of s] split: if_splits)
        from "1.IH"(2) [OF gl [symmetric] nf cmd ex [symmetric] ncw sk tg [symmetric]
            rec p_lo s2_lo] tp gl_pos
        show ?thesis by simp
      next
        case other
        with "1.prems"(1) gl nf cmd ex
        have "s' = seekg s1 startOfLine"
          by (auto simp: parseMessageBoxTextDefinition_lines.simps [of s])
        with seekg_position [of s1 startOfLine] "1.prems"(2,3) gl_pos
        show ?thesis by auto
      qed
    qed
  qed
qed

lemma parseScriptLines_PagesDefinition_position:
  assumes "parseScriptLines_PagesDefinition ndebug s pages = Inr (ps, s')"
  shows "buf s' = buf s \<and> gpos s \<le> gpos s'"
  using assms
proof (induction ndebug s pages rule: parseScriptLines_PagesDefinition.induct)
  case (1 ndebug s pages)
  note unf = parseScriptLines_PagesDefinition.simps [of ndebug s pages]
  show ?case
  proof (cases "readScriptLine s ''PAGESEND''")
    case (Exhausted s1)
    with "1.prems" show ?thesis
      unfolding unf by simp
  next
    case (EndMarker s1)
    with "1.prems" have "s' = s1" unfolding unf by simp
    with readScriptLine_progress(1) [OF EndMarker] show ?thesis
      by simp
  next
    case (OtherLine s1)
    with "1.prems"
    have "parseScriptLines_PagesDefinition ndebug s1 pages = Inr (ps, s')"
      unfolding unf by simp
    from "1.IH"(1) [OF OtherLine this] readScriptLine_progress(2) [OF OtherLine]
    show ?thesis by simp
  next
    case (CommandLine command l s1)
    with "1.prems" obtain pages1
      where c: "parsePagesDefinition_consumeLine ndebug command l pages = Inr pages1"
        and r: "parseScriptLines_PagesDefinition ndebug s1 pages1 = Inr (ps, s')"
      unfolding unf by (auto split: sum.splits)
    from "1.IH"(2) [OF CommandLine c r] readScriptLine_progress(3) [OF CommandLine]
    show ?thesis by simp
  qed
qed

lemma parsePagesDefinition_position:
  assumes "parsePagesDefinition ndebug s = Inr (ps, s')"
  shows "buf s' = buf s \<and> gpos s \<le> gpos s'"
  using parseScriptLines_PagesDefinition_position [OF assms [unfolded parsePagesDefinition_def]]
    skipWhiteSpace_position [of s]
  by simp

lemma parseMessageBoxTextDefinition_position:
  assumes "parseMessageBoxTextDefinition s = Inr (ls, s')"
  shows "buf s' = buf s \<and> gpos s \<le> gpos s'"
proof -
  obtain p s1 where tg: "tellg s = (p, s1)" by (cases "tellg s")
  with assms have "parseMessageBoxTextDefinition_lines s1 p [] = Inr (ls, s')"
    by (simp add: parseMessageBoxTextDefinition_def)
  from parseMessageBoxTextDefinition_lines_position [OF this, of "gpos s"] tellg_position [OF tg]
  show ?thesis by auto
qed

subsection \<open>parseAction and parseScript\<close>

definition parseAction ::
  "bool \<Rightarrow> string \<Rightarrow> istream \<Rightarrow> istream \<Rightarrow> error + Action option \<times> istream"
where
  "parseAction ndebug command sourceTextStream currentLineStream =
     (if command = ''CENTERWINDOW'' then
        (case extract_int currentLineStream 0 of (y, l1) \<Rightarrow>
         case extract_int l1 0 of (height, l2) \<Rightarrow>
         case extract_int l2 0 of (width, l3) \<Rightarrow>
         case parseMessageBoxTextDefinition (skipWhiteSpace sourceTextStream) of
           Inl e \<Rightarrow> Inl e
         | Inr (messageLines, s1) \<Rightarrow>
             Inr (Some (ShowMessageBox y width height messageLines), s1))
      else (case parseOneLineAction ndebug command currentLineStream of
              Inl e \<Rightarrow> Inl e
            | Inr maybeAction \<Rightarrow> Inr (maybeAction, sourceTextStream)))"

text \<open>The function that \<open>parseScript\<close> passes to \<open>parseScriptLines\<close>.\<close>

definition parseScript_consumeLine ::
  "bool \<Rightarrow> string \<Rightarrow> istream \<Rightarrow> Script \<Rightarrow> istream \<Rightarrow> error + Script \<times> istream"
where
  "parseScript_consumeLine ndebug command lineTextStream script sourceTextStream =
     (if command = ''PAGESSTART'' then
        (case parsePagesDefinition ndebug (skipWhiteSpace sourceTextStream) of
           Inl e \<Rightarrow> Inl e
         | Inr (pages, s1) \<Rightarrow> Inr (script @ [PagesDefinition pages], s1))
      else if command = ''MENU'' then
        (case extract_int lineTextStream 0 of (slot, l1) \<Rightarrow>
           Inr (script @ [ConfigurePersistentMenuSelection slot,
                          ScheduleFadeInBeforeNextWaitState],
                sourceTextStream))
      else
        (case parseAction ndebug command sourceTextStream lineTextStream of
           Inl e \<Rightarrow> Inl e
         | Inr (None, s1) \<Rightarrow> Inr (script, s1)
         | Inr (Some action, s1) \<Rightarrow> Inr (script @ [action], s1)))"



lemma parseScript_consumeLine_position:
  assumes "parseScript_consumeLine ndebug command l script s = Inr (script1, s')"
  shows "buf s' = buf s \<and> gpos s \<le> gpos s'"
proof -
  consider (pages) "command = ''PAGESSTART''" | (menu) "command = ''MENU''"
    | (box) "command = ''CENTERWINDOW''"
    | (line) "command \<noteq> ''PAGESSTART''" "command \<noteq> ''MENU''" "command \<noteq> ''CENTERWINDOW''"
    by blast
  then show ?thesis
  proof cases
    case pages
    with assms obtain ps
      where "parsePagesDefinition ndebug (skipWhiteSpace s) = Inr (ps, s')"
      by (auto simp: parseScript_consumeLine_def split: sum.splits)
    from parsePagesDefinition_position [OF this] skipWhiteSpace_position [of s]
    show ?thesis by simp
  next
    case menu
    with assms show ?thesis
      by (auto simp: parseScript_consumeLine_def split: prod.splits)
  next
    case box
    with assms obtain ls
      where "parseMessageBoxTextDefinition (skipWhiteSpace s) = Inr (ls, s')"
      by (auto simp: parseScript_consumeLine_def parseAction_def
               split: sum.splits prod.splits option.splits)
    from parseMessageBoxTextDefinition_position [OF this] skipWhiteSpace_position [of s]
    show ?thesis by simp
  next
    case line
    with assms show ?thesis
      by (auto simp: parseScript_consumeLine_def parseAction_def
               split: sum.splits prod.splits option.splits)
  qed
qed

text \<open>The loop of \<open>parseScriptLines\<close> for \<open>parseScript\<close>.\<close>

function parseScriptLines_Script ::
  "bool \<Rightarrow> istream \<Rightarrow> Script \<Rightarrow> error + Script \<times> istream"
where
  "parseScriptLines_Script ndebug sourceTextStream script =
     (case readScriptLine sourceTextStream ''END'' of
        Exhausted s1 \<Rightarrow> Inl (missingEndMarker ''END'')
      | EndMarker s1 \<Rightarrow> Inr (script, s1)
      | OtherLine s1 \<Rightarrow> parseScriptLines_Script ndebug s1 script
      | CommandLine command lineTextStream s1 \<Rightarrow>
          (case parseScript_consumeLine ndebug command lineTextStream script s1 of
             Inl e \<Rightarrow> Inl e
           | Inr (script1, s2) \<Rightarrow> parseScriptLines_Script ndebug s2 script1))"
  by pat_completeness auto
termination
proof (relation "measure (\<lambda>(n, s, sc). length (buf s) - gpos s)", goal_cases)
  case 1
  show ?case by simp
next
  case (2 n s sc s1)
  from readScriptLine_progress(2) [OF 2] show ?case by auto
next
  case (3 n s sc command l s1 r script1 s2)
  from 3(2,3) have "parseScript_consumeLine n command l sc s1 = Inr (script1, s2)"
    by simp
  from readScriptLine_progress(3) [OF 3(1)] parseScript_consumeLine_position [OF this]
  show ?case by auto
qed

declare parseScriptLines_Script.simps [simp del]

definition parseScript :: "bool \<Rightarrow> istream \<Rightarrow> error + Script \<times> istream" where
  "parseScript ndebug sourceTextStream =
     parseScriptLines_Script ndebug (skipWhiteSpace sourceTextStream) []"

subsection \<open>loadScripts\<close>

text \<open>
  The loop of \<open>loadScripts\<close> runs while \<^verbatim>\<open>eofbit\<close> is not set. Nothing in its text
  bounds it, so it is a partial function: \<open>None\<close> is a loop that never ends. The script is
  parsed before \<open>emplace\<close> is called with it.
\<close>

partial_function (option) loadScripts_loop ::
  "bool \<Rightarrow> istream \<Rightarrow> ScriptBundle \<Rightarrow> (error + ScriptBundle) option"
where
  "loadScripts_loop ndebug sourceStream bundle =
     (if eofbit sourceStream then Some (Inr bundle)
      else (case extract_string (skipWhiteSpace sourceStream) [] of (scriptName, s1) \<Rightarrow>
              if trim scriptName \<noteq> [] then
                (case parseScript ndebug s1 of
                   Inl e \<Rightarrow> Some (Inl e)
                 | Inr (script, s2) \<Rightarrow>
                     loadScripts_loop ndebug s2 (emplace bundle (trim scriptName) script))
              else loadScripts_loop ndebug s1 bundle))"

definition loadScripts :: "bool \<Rightarrow> string \<Rightarrow> (error + ScriptBundle) option" where
  "loadScripts ndebug scriptSource = loadScripts_loop ndebug (istringstream scriptSource) Map.empty"

section \<open>Properties\<close>

text \<open>The definitions that evaluate a call on a given text.\<close>

lemmas stream_defs =
  extract_string_def extract_int_def sentry_def good_def remaining_def istringstream_def
  getline_def get_def peek_def tellg_def seekg_def isspace_def isdigit_def decimal_def
  INT_MAX_def INT_MIN_def trim_def trim_left_def trim_right_def starts_with_def
  isCommand_def stripCommandPrefix_def

lemmas parser_defs =
  loadScripts_def parseScript_def parseScript_consumeLine_def parseAction_def
  parsePagesDefinition_def parsePagesDefinition_consumeLine_def
  parseMessageBoxTextDefinition_def readScriptLine_def missingEndMarker_def
  parseOneLineAction_def parseOneLineAction_XYTEXT_def emplace_def notAllowedHere_def
  stoi_def string_range_def

lemmas loop_simps =
  skipWhiteSpace.simps parseOneLineAction_TOGGS.simps
  parseMessageBoxTextDefinition_lines.simps parseScriptLines_PagesDefinition.simps
  parseScriptLines_Script.simps loadScripts_loop.simps

subsection \<open>XYTEXT: big text\<close>

text \<open>
  Claim C6. When the text of an XYTEXT command holds a byte of 0xF0 or more, the first of
  them at offset \<open>k\<close>, the command is \<open>DrawBigText\<close> at \<open>x + k\<close> and \<open>y\<close>, with the
  colour index the value of that byte less 0xF0 and the text what follows the byte. The
  rule is tried before the sprite rule, so it holds whatever the first byte is.
\<close>

theorem XYTEXT_big_text:
  assumes "k < length payload"
    and "0xF0 \<le> (of_char (payload ! k) :: nat)"
    and "list_all (\<lambda>ch. (of_char ch :: nat) < 0xF0) (take k payload)"
  shows "parseOneLineAction_XYTEXT x y payload =
           Inr (DrawBigText (x + of_nat k) y
                  (of_nat ((of_char (payload ! k) :: nat) - 0xF0))
                  (drop (Suc k) payload))"
proof -
  have "takeWhile (\<lambda>ch. \<not> 0xF0 \<le> (of_char ch :: nat)) payload = take k payload"
  proof (rule takeWhile_eq_take_P_nth)
    fix i assume "i < k" "i < length payload"
    then have "payload ! i \<in> set (take k payload)"
      by (metis in_set_conv_nth length_take min_less_iff_conj nth_take)
    with assms(3) show "\<not> 0xF0 \<le> (of_char (payload ! i) :: nat)"
      by (auto simp: list_all_iff)
  next
    show "\<not> \<not> 0xF0 \<le> (of_char (payload ! k) :: nat)"
      using assms(2) by simp
  qed
  then have len: "length (takeWhile (\<lambda>ch. \<not> 0xF0 \<le> (of_char ch :: nat)) payload) = k"
    using assms(1) by simp
  have "(of_nat (of_char (payload ! k)) :: cint) - 0xF0 = of_nat ((of_char (payload ! k) :: nat) - 0xF0)"
    using assms(2) by (simp add: of_nat_diff)
  with len assms(1) show ?thesis
    by (simp add: parseOneLineAction_XYTEXT_def)
qed

theorem XYTEXT_big_text_witness:
  "2 < length (''  '' @ [CHR 0xF7] @ ''Hello'') \<and>
   0xF0 \<le> (of_char ((''  '' @ [CHR 0xF7] @ ''Hello'') ! 2) :: nat) \<and>
   list_all (\<lambda>ch. (of_char ch :: nat) < 0xF0) (take 2 (''  '' @ [CHR 0xF7] @ ''Hello'')) \<and>
   parseOneLineAction_XYTEXT 0 3 (''  '' @ [CHR 0xF7] @ ''Hello'') =
     Inr (DrawBigText 2 3 7 ''Hello'')"
proof -
  have h1: "2 < length (''  '' @ [CHR 0xF7] @ ''Hello'')"
    by simp
  have h2: "0xF0 \<le> (of_char ((''  '' @ [CHR 0xF7] @ ''Hello'') ! 2) :: nat)"
    by simp
  have h3: "list_all (\<lambda>ch. (of_char ch :: nat) < 0xF0) (take 2 (''  '' @ [CHR 0xF7] @ ''Hello''))"
    by simp
  from XYTEXT_big_text [OF h1 h2 h3, of 0 3] h1 h2 h3 show ?thesis
    by simp
qed

text \<open>The rule comes first: a text that starts with the byte 0xEF and holds a marker
  further on is big text, not a sprite.\<close>

lemma XYTEXT_big_text_after_sprite_byte:
  "parseOneLineAction_XYTEXT 0 3 ([CHR 0xEF] @ ''12307'' @ [CHR 0xF1] @ ''Hello'') =
     Inr (DrawBigText 6 3 1 ''Hello'')"
  by (simp add: parseOneLineAction_XYTEXT_def)

text \<open>Big text read from a whole command line; the blank after \<open>y\<close> is not part of the text.\<close>

lemma XYTEXT_big_text_line_example:
  "parseOneLineAction ndebug ''XYTEXT''
     (snd (extract_string (istringstream (''XYTEXT 0 3   '' @ [CHR 0xF7] @ ''Hello'')) [])) =
   Inr (Some (DrawBigText 2 3 7 ''Hello''))"
  by (simp add: parseOneLineAction_def parseOneLineAction_XYTEXT_def stream_defs)

subsection \<open>GETPAL\<close>

text \<open>
  Claim C7. A GETPAL command with no palette file fails with an invalid-argument error
  that names GETPAL as the command that failed. The loader does fail, but its message is
  the one of LOADRAW: \<^verbatim>\<open>Invalid LOADRAW command in Duke Script file\<close>. The theorem gives
  the error the loader throws whenever the palette file is empty.
\<close>

theorem GETPAL_empty_names_LOADRAW:
  assumes "trim (fst (extract_string lineTextStream [])) = []"
  shows "parseOneLineAction ndebug ''GETPAL'' lineTextStream =
           Inl (invalid_argument ''Invalid LOADRAW command in Duke Script file'')"
  using assms by (cases "extract_string lineTextStream []") (simp add: parseOneLineAction_def)

theorem GETPAL_empty_names_LOADRAW_witness:
  "trim (fst (extract_string (snd (extract_string (istringstream ''GETPAL'') [])) [])) = [] \<and>
   parseOneLineAction False ''GETPAL'' (snd (extract_string (istringstream ''GETPAL'') [])) =
     Inl (invalid_argument ''Invalid LOADRAW command in Duke Script file'')"
proof -
  have h: "trim (fst (extract_string (snd (extract_string (istringstream ''GETPAL'') [])) [])) = []"
    by (simp add: stream_defs)
  from GETPAL_empty_names_LOADRAW [OF h] h show ?thesis
    by simp
qed

text \<open>The same through \<open>loadScripts\<close>, for a script whose only line is the bare command.\<close>

lemma GETPAL_script_example:
  "loadScripts ndebug ''s\<newline>//GETPAL\<newline>//END\<newline>'' =
     Some (Inl (invalid_argument ''Invalid LOADRAW command in Duke Script file''))"
  by (simp add: parser_defs loop_simps stream_defs)

subsection \<open>TOGGS\<close>

text \<open>The loop adds one definition for each \<open>i\<close> from where it starts up to \<open>count\<close>.\<close>

lemma parseOneLineAction_TOGGS_length:
  "length (fst (parseOneLineAction_TOGGS i count s definitions)) =
     length definitions + nat (sint count - sint i)"
proof (induction i count s definitions rule: parseOneLineAction_TOGGS.induct)
  case (1 i count s definitions)
  show ?case
  proof (cases "sint i < sint count")
    case True
    obtain yPos s1 where e1: "extract_int s 0 = (yPos, s1)"
      by (cases "extract_int s 0")
    obtain id1 s2 where e2: "extract_int s1 0 = (id1, s2)"
      by (cases "extract_int s1 0")
    have "length (fst (parseOneLineAction_TOGGS (i + 1) count s2 (definitions @ [(yPos, id1)]))) =
            length (definitions @ [(yPos, id1)]) + nat (sint count - sint (i + 1))"
      by (rule "1.IH" [OF True e1 [symmetric] e2 [symmetric]])
    with True e1 e2 sint_succ_below [OF True] show ?thesis
      by (simp add: parseOneLineAction_TOGGS.simps [of i count s definitions])
  next
    case False
    then show ?thesis
      by (simp add: parseOneLineAction_TOGGS.simps [of i count s definitions])
  qed
qed

lemma extract_int_not_good:
  "\<not> good s \<Longrightarrow> fst (extract_int s old) = old"
  by (simp add: extract_int_def sentry_def)

text \<open>
  Claim C10. A TOGGS command never fails. With \<open>xPos\<close> and \<open>count\<close> the two integers read
  from the line, the action is \<open>SetupCheckBoxes xPos definitions\<close> with as many definitions
  as \<open>count\<close> says, none when \<open>count\<close> is zero or negative; and \<open>count\<close> is 0 when the
  stream is no longer good after \<open>xPos\<close>, so that no integer is read for it.
\<close>

theorem TOGGS_never_fails:
  assumes "extract_int lineTextStream 0 = (xPos, s1)"
    and "extract_int s1 0 = (count, s2)"
  shows "(\<exists>definitions.
            parseOneLineAction ndebug ''TOGGS'' lineTextStream =
              Inr (Some (SetupCheckBoxes xPos definitions)) \<and>
            length definitions = nat (sint count) \<and>
            (sint count \<le> 0 \<longrightarrow> definitions = [])) \<and>
         (\<not> good s1 \<longrightarrow> count = 0)"
proof -
  obtain definitions s3 where loop: "parseOneLineAction_TOGGS 0 count s2 [] = (definitions, s3)"
    by (cases "parseOneLineAction_TOGGS 0 count s2 []")
  have len: "length definitions = nat (sint count)"
    using parseOneLineAction_TOGGS_length [of 0 count s2 "[]"] loop by simp
  have res: "parseOneLineAction ndebug ''TOGGS'' lineTextStream =
               Inr (Some (SetupCheckBoxes xPos definitions))"
    using assms loop by (simp add: parseOneLineAction_def)
  have "\<not> good s1 \<longrightarrow> count = 0"
    using extract_int_not_good [of s1 0] assms(2) by simp
  with res len show ?thesis by auto
qed

theorem TOGGS_never_fails_witness:
  "extract_int (snd (extract_string (istringstream ''TOGGS 3 -2 1 2'') [])) 0 =
     (3, \<lparr>buf = ''TOGGS 3 -2 1 2'', gpos = 7, eofbit = False, failbit = False\<rparr>) \<and>
   extract_int \<lparr>buf = ''TOGGS 3 -2 1 2'', gpos = 7, eofbit = False, failbit = False\<rparr> 0 =
     (- 2, \<lparr>buf = ''TOGGS 3 -2 1 2'', gpos = 10, eofbit = False, failbit = False\<rparr>) \<and>
   parseOneLineAction False ''TOGGS'' (snd (extract_string (istringstream ''TOGGS 3 -2 1 2'') [])) =
     Inr (Some (SetupCheckBoxes 3 []))"
proof -
  have h1: "extract_int (snd (extract_string (istringstream ''TOGGS 3 -2 1 2'') [])) 0 =
     (3, \<lparr>buf = ''TOGGS 3 -2 1 2'', gpos = 7, eofbit = False, failbit = False\<rparr>)"
    by (simp add: stream_defs)
  have h2: "extract_int \<lparr>buf = ''TOGGS 3 -2 1 2'', gpos = 7, eofbit = False, failbit = False\<rparr> 0 =
     (- 2, \<lparr>buf = ''TOGGS 3 -2 1 2'', gpos = 10, eofbit = False, failbit = False\<rparr>)"
    by (simp add: stream_defs)
  from TOGGS_never_fails [OF h1 h2, of False] h1 h2 show ?thesis
    by auto
qed

text \<open>Lines with no count, with a count that is no number, and with counts 0 and 2.\<close>

lemma TOGGS_examples:
  "parseOneLineAction ndebug ''TOGGS'' (snd (extract_string (istringstream ''TOGGS'') [])) =
     Inr (Some (SetupCheckBoxes 0 []))"
  "parseOneLineAction ndebug ''TOGGS'' (snd (extract_string (istringstream ''TOGGS 5'') [])) =
     Inr (Some (SetupCheckBoxes 5 []))"
  "parseOneLineAction ndebug ''TOGGS'' (snd (extract_string (istringstream ''TOGGS 5 x 1'') [])) =
     Inr (Some (SetupCheckBoxes 5 []))"
  "parseOneLineAction ndebug ''TOGGS'' (snd (extract_string (istringstream ''TOGGS 5 0 1 2'') [])) =
     Inr (Some (SetupCheckBoxes 5 []))"
  "parseOneLineAction ndebug ''TOGGS'' (snd (extract_string (istringstream ''TOGGS 5 2 10 1 20'') [])) =
     Inr (Some (SetupCheckBoxes 5 [(10, 1), (20, 0)]))"
  by (simp_all add: parseOneLineAction_def parseOneLineAction_TOGGS.simps stream_defs)

subsection \<open>XYTEXT: sprites\<close>

text \<open>\<open>stoi\<close> on strings of two and three digits, as the sprite form has them.\<close>

lemma isdigit_plain:
  assumes "isdigit c"
  shows "\<not> isspace c" and "c \<noteq> CHR ''-''" and "c \<noteq> CHR ''+''"
  using assms by (auto simp: isdigit_def isspace_def)

lemma stoi_three_digits:
  assumes "isdigit a" "isdigit b" "isdigit c"
  shows "stoi [a, b, c] =
           Inr (of_nat (100 * (of_char a - 48) + 10 * (of_char b - 48) + (of_char c - 48)))"
proof -
  have a: "48 \<le> (of_char a :: nat)" "(of_char a :: nat) \<le> 57"
    and b: "48 \<le> (of_char b :: nat)" "(of_char b :: nat) \<le> 57"
    and c: "48 \<le> (of_char c :: nat)" "(of_char c :: nat) \<le> 57"
    using assms by (simp_all add: isdigit_def)
  have v: "decimal [a, b, c] =
             int (100 * (of_char a - 48) + 10 * (of_char b - 48) + (of_char c - 48))"
    using a b c by (simp add: decimal_def of_nat_diff)
  have range: "INT_MIN \<le> decimal [a, b, c] \<and> decimal [a, b, c] \<le> INT_MAX"
    unfolding v using a b c by (simp add: INT_MIN_def INT_MAX_def)
  have "stoi [a, b, c] = Inr (word_of_int (decimal [a, b, c]))"
    using assms isdigit_plain [OF assms(1)] range
    by (simp add: stoi_def not_less)
  then show ?thesis
    by (simp add: v)
qed

lemma stoi_two_digits:
  assumes "isdigit a" "isdigit b"
  shows "stoi [a, b] = Inr (of_nat (10 * (of_char a - 48) + (of_char b - 48)))"
proof -
  have a: "48 \<le> (of_char a :: nat)" "(of_char a :: nat) \<le> 57"
    and b: "48 \<le> (of_char b :: nat)" "(of_char b :: nat) \<le> 57"
    using assms by (simp_all add: isdigit_def)
  have v: "decimal [a, b] = int (10 * (of_char a - 48) + (of_char b - 48))"
    using a b by (simp add: decimal_def of_nat_diff)
  have range: "INT_MIN \<le> decimal [a, b] \<and> decimal [a, b] \<le> INT_MAX"
    unfolding v using a b by (simp add: INT_MIN_def INT_MAX_def)
  have "stoi [a, b] = Inr (word_of_int (decimal [a, b]))"
    using assms isdigit_plain [OF assms(1)] range
    by (simp add: stoi_def not_less)
  then show ?thesis
    by (simp add: v)
qed

lemma stoi_in_bounds:
  "stoi str \<noteq> Inl out_of_range_iterator"
  by (simp add: stoi_def)

lemma XYTEXT_no_marker:
  assumes "list_all (\<lambda>ch. (of_char ch :: nat) < 0xF0) payload"
  shows "length (takeWhile (\<lambda>ch. \<not> 0xF0 \<le> (of_char ch :: nat)) payload) = length payload"
proof -
  have "takeWhile (\<lambda>ch. \<not> 0xF0 \<le> (of_char ch :: nat)) payload = payload"
    using assms by (simp add: list_all_iff not_le)
  then show ?thesis by (rule arg_cong)
qed

text \<open>
  Claim C2, amended. For a text whose first byte is 0xEF and which holds no byte of 0xF0
  or more: the command fails as corrupt when the text is shorter than 5 bytes; when it has
  6 bytes or more, the bytes at 1 to 3 and at 4 to 5 go to \<open>stoi\<close>, no iterator leaves the
  text, and the command is \<open>DrawSprite (x + 2) (y + 1) actor frame\<close> when both
  conversions succeed and fails with the error of \<open>stoi\<close> otherwise; five decimal digits
  always convert, to the numbers they spell.
\<close>

theorem XYTEXT_sprite:
  assumes "payload \<noteq> []"
    and "(of_char (payload ! 0) :: nat) = 0xEF"
    and "list_all (\<lambda>ch. (of_char ch :: nat) < 0xF0) payload"
  shows "(length payload < 5 \<longrightarrow>
            parseOneLineAction_XYTEXT x y payload =
              Inl (invalid_argument ''Corrupt Duke Script file'')) \<and>
         (6 \<le> length payload \<longrightarrow>
            parseOneLineAction_XYTEXT x y payload =
              (case stoi (take 3 (drop 1 payload)) of
                 Inl e \<Rightarrow> Inl e
               | Inr actor \<Rightarrow>
                   (case stoi (take 2 (drop 4 payload)) of
                      Inl e \<Rightarrow> Inl e
                    | Inr frame \<Rightarrow> Inr (DrawSprite (x + 2) (y + 1) actor frame))) \<and>
            parseOneLineAction_XYTEXT x y payload \<noteq> Inl out_of_range_iterator) \<and>
         (6 \<le> length payload \<and> list_all isdigit (take 5 (drop 1 payload)) \<longrightarrow>
            parseOneLineAction_XYTEXT x y payload =
              Inr (DrawSprite (x + 2) (y + 1)
                     (of_nat (100 * (of_char (payload ! 1) - 48)
                              + 10 * (of_char (payload ! 2) - 48)
                              + (of_char (payload ! 3) - 48)))
                     (of_nat (10 * (of_char (payload ! 4) - 48)
                              + (of_char (payload ! 5) - 48)))))"
proof -
  note nm = XYTEXT_no_marker [OF assms(3)]
  have short: "length payload < 5 \<Longrightarrow>
      parseOneLineAction_XYTEXT x y payload = Inl (invalid_argument ''Corrupt Duke Script file'')"
    using nm assms(2) by (simp add: parseOneLineAction_XYTEXT_def)
  have long: "parseOneLineAction_XYTEXT x y payload =
      (case stoi (take 3 (drop 1 payload)) of
         Inl e \<Rightarrow> Inl e
       | Inr actor \<Rightarrow>
           (case stoi (take 2 (drop 4 payload)) of
              Inl e \<Rightarrow> Inl e
            | Inr frame \<Rightarrow> Inr (DrawSprite (x + 2) (y + 1) actor frame)))"
    if "6 \<le> length payload"
    using nm assms(2) that by (simp add: parseOneLineAction_XYTEXT_def string_range_def)
  have inb: "parseOneLineAction_XYTEXT x y payload \<noteq> Inl out_of_range_iterator"
    if "6 \<le> length payload"
    unfolding long [OF that]
    using stoi_in_bounds [of "take 3 (drop 1 payload)"] stoi_in_bounds [of "take 2 (drop 4 payload)"]
    by (auto split: sum.splits)
  have digits: "parseOneLineAction_XYTEXT x y payload =
      Inr (DrawSprite (x + 2) (y + 1)
             (of_nat (100 * (of_char (payload ! 1) - 48)
                      + 10 * (of_char (payload ! 2) - 48)
                      + (of_char (payload ! 3) - 48)))
             (of_nat (10 * (of_char (payload ! 4) - 48)
                      + (of_char (payload ! 5) - 48))))"
    if len: "6 \<le> length payload" and dg: "list_all isdigit (take 5 (drop 1 payload))"
  proof -
    have t3: "take 3 (drop 1 payload) = [payload ! 1, payload ! 2, payload ! 3]"
      using len by (auto simp: list_eq_iff_nth_eq nth_Cons' less_Suc_eq eval_nat_numeral)
    have t2: "take 2 (drop 4 payload) = [payload ! 4, payload ! 5]"
      using len by (auto simp: list_eq_iff_nth_eq nth_Cons' less_Suc_eq eval_nat_numeral)
    have t5: "take 5 (drop 1 payload) =
                [payload ! 1, payload ! 2, payload ! 3, payload ! 4, payload ! 5]"
      using len by (auto simp: list_eq_iff_nth_eq nth_Cons' less_Suc_eq eval_nat_numeral)
    from dg have d: "isdigit (payload ! 1)" "isdigit (payload ! 2)" "isdigit (payload ! 3)"
        "isdigit (payload ! 4)" "isdigit (payload ! 5)"
      unfolding t5 by simp_all
    show ?thesis
      unfolding long [OF len] t3 t2 stoi_three_digits [OF d(1,2,3)] stoi_two_digits [OF d(4,5)]
      by simp
  qed
  from short long inb digits show ?thesis by blast
qed


theorem XYTEXT_sprite_witness:
  "[CHR 0xEF] @ ''12307'' \<noteq> [] \<and>
   (of_char (([CHR 0xEF] @ ''12307'') ! 0) :: nat) = 0xEF \<and>
   list_all (\<lambda>ch. (of_char ch :: nat) < 0xF0) ([CHR 0xEF] @ ''12307'') \<and>
   6 \<le> length ([CHR 0xEF] @ ''12307'') \<and>
   list_all isdigit (take 5 (drop 1 ([CHR 0xEF] @ ''12307''))) \<and>
   parseOneLineAction_XYTEXT 5 1 ([CHR 0xEF] @ ''12307'') = Inr (DrawSprite 7 2 123 7)"
proof -
  have h1: "[CHR 0xEF] @ ''12307'' \<noteq> []"
    by simp
  have h2: "(of_char (([CHR 0xEF] @ ''12307'') ! 0) :: nat) = 0xEF"
    by simp
  have h3: "list_all (\<lambda>ch. (of_char ch :: nat) < 0xF0) ([CHR 0xEF] @ ''12307'')"
    by simp
  have h4: "6 \<le> length ([CHR 0xEF] @ ''12307'')"
    by simp
  have h5: "list_all isdigit (take 5 (drop 1 ([CHR 0xEF] @ ''12307'')))"
    by (simp add: isdigit_def)
  from XYTEXT_sprite [OF h1 h2 h3, of 5 1] h4 h5
  have "parseOneLineAction_XYTEXT 5 1 ([CHR 0xEF] @ ''12307'') =
          Inr (DrawSprite (5 + 2) (1 + 1)
                 (of_nat (100 * (of_char (([CHR 0xEF] @ ''12307'') ! 1) - 48)
                          + 10 * (of_char (([CHR 0xEF] @ ''12307'') ! 2) - 48)
                          + (of_char (([CHR 0xEF] @ ''12307'') ! 3) - 48)))
                 (of_nat (10 * (of_char (([CHR 0xEF] @ ''12307'') ! 4) - 48)
                          + (of_char (([CHR 0xEF] @ ''12307'') ! 5) - 48))))"
    by blast
  also have "\<dots> = Inr (DrawSprite 7 2 123 7)"
    by simp
  finally show ?thesis
    using h1 h2 h3 h4 h5 by blast
qed

text \<open>
  The claim as first stated has the command fail exactly when the text is shorter than 5
  bytes. A text of 6 bytes whose actor field is no number fails too.
\<close>

theorem XYTEXT_sprite_not_a_number:
  "(of_char (([CHR 0xEF] @ ''abc07'') ! 0) :: nat) = 0xEF \<and>
   list_all (\<lambda>ch. (of_char ch :: nat) < 0xF0) ([CHR 0xEF] @ ''abc07'') \<and>
   length ([CHR 0xEF] @ ''abc07'') = 6 \<and>
   parseOneLineAction_XYTEXT 5 1 ([CHR 0xEF] @ ''abc07'') = Inl stoi_invalid_argument"
  by (simp add: parseOneLineAction_XYTEXT_def string_range_def stoi_def stream_defs)

text \<open>
  A text of exactly 5 bytes passes the length check, and the frame field is then built
  from an iterator one past the end of the text.
\<close>

lemma XYTEXT_sprite_five_bytes:
  "parseOneLineAction_XYTEXT 5 1 ([CHR 0xEF] @ ''1230'') = Inl out_of_range_iterator"
  by (simp add: parseOneLineAction_XYTEXT_def string_range_def)

text \<open>The sprite form read from a whole command line.\<close>

lemma XYTEXT_sprite_line_example:
  "parseOneLineAction ndebug ''XYTEXT''
     (snd (extract_string (istringstream (''XYTEXT 5 1 '' @ [CHR 0xEF] @ ''12307'')) [])) =
   Inr (Some (DrawSprite 7 2 123 7))"
  by (simp add: parseOneLineAction_def parseOneLineAction_XYTEXT_def string_range_def stoi_def
        stream_defs)

subsection \<open>Commands without an action\<close>

lemma notAllowedHere_not_dispatched:
  assumes "command \<in> set notAllowedHere"
  shows "command \<notin> set dispatchedCommands" and "command \<noteq> ''END''"
  using assms by (auto simp: notAllowedHere_def dispatchedCommands_def)

lemma parseOneLineAction_not_dispatched:
  assumes "command \<notin> set dispatchedCommands"
  shows "parseOneLineAction ndebug command lineTextStream =
           (if \<not> ndebug \<and> command = ''END'' then Inl assertion_failed
            else if command \<in> set notAllowedHere then
              Inl (invalid_argument
                     (''The command '' @ command @ '' is not allowed in this context''))
            else Inr None)"
  using assms by (simp add: parseOneLineAction_def dispatchedCommands_def)

text \<open>
  What \<open>parseOneLineAction\<close> does with a command it has no branch for. Each of APAGE,
  CENTERWINDOW, CWTEXT, MENU, PAGESEND, PAGESSTART and SKLINE fails with an error that names
  the command. Every command outside this set and other than END gives no action and no
  error, and leaves the script and the pages as they are. For END the result depends on
  whether the assertion is compiled in.
\<close>

lemma parseOneLineAction_other_commands:
  "(command \<in> set notAllowedHere \<longrightarrow>
      parseOneLineAction ndebug command lineTextStream =
        Inl (invalid_argument
               (''The command '' @ command @ '' is not allowed in this context''))) \<and>
   (command \<notin> set notAllowedHere \<and> command \<notin> set dispatchedCommands \<and> command \<noteq> ''END'' \<longrightarrow>
      parseOneLineAction ndebug command lineTextStream = Inr None \<and>
      parseScript_consumeLine ndebug command lineTextStream script sourceTextStream =
        Inr (script, sourceTextStream) \<and>
      parsePagesDefinition_consumeLine ndebug command lineTextStream pages = Inr pages) \<and>
   parseOneLineAction True ''END'' lineTextStream = Inr None \<and>
   parseOneLineAction False ''END'' lineTextStream = Inl assertion_failed"
proof -
  have refused: "parseOneLineAction ndebug command lineTextStream =
      Inl (invalid_argument (''The command '' @ command @ '' is not allowed in this context''))"
    if "command \<in> set notAllowedHere"
    using notAllowedHere_not_dispatched [OF that] that
    by (simp add: parseOneLineAction_not_dispatched)
  have ignored: "parseOneLineAction ndebug command lineTextStream = Inr None"
    if "command \<notin> set notAllowedHere" "command \<notin> set dispatchedCommands" "command \<noteq> ''END''"
    using that by (simp add: parseOneLineAction_not_dispatched)
  have script: "parseScript_consumeLine ndebug command lineTextStream script sourceTextStream =
      Inr (script, sourceTextStream)"
    if "command \<notin> set notAllowedHere" "command \<notin> set dispatchedCommands" "command \<noteq> ''END''"
  proof -
    from that(1) have "command \<noteq> ''PAGESSTART''" "command \<noteq> ''MENU''"
        "command \<noteq> ''CENTERWINDOW''" "command \<noteq> ''APAGE''"
      by (auto simp: notAllowedHere_def)
    with ignored [OF that] show ?thesis
      by (simp add: parseScript_consumeLine_def parseAction_def)
  qed
  have pages: "parsePagesDefinition_consumeLine ndebug command lineTextStream pages = Inr pages"
    if "command \<notin> set notAllowedHere" "command \<notin> set dispatchedCommands" "command \<noteq> ''END''"
  proof -
    from that(1) have "command \<noteq> ''APAGE''"
      by (auto simp: notAllowedHere_def)
    with ignored [OF that] show ?thesis
      by (simp add: parsePagesDefinition_consumeLine_def)
  qed
  have e: "''END'' \<notin> set dispatchedCommands" "''END'' \<notin> set notAllowedHere"
    by (simp_all add: dispatchedCommands_def notAllowedHere_def)
  have end_release: "parseOneLineAction True ''END'' lineTextStream = Inr None"
    using e by (simp add: parseOneLineAction_not_dispatched)
  have end_debug: "parseOneLineAction False ''END'' lineTextStream = Inl assertion_failed"
    using e by (simp add: parseOneLineAction_not_dispatched)
  from refused ignored script pages end_release end_debug show ?thesis
    by blast
qed

lemma parseOneLineAction_other_commands_examples:
  "''APAGE'' \<in> set notAllowedHere \<and>
   parseOneLineAction False ''APAGE'' (istringstream []) =
     Inl (invalid_argument ''The command APAGE is not allowed in this context'') \<and>
   ''SETKEYS'' \<notin> set notAllowedHere \<and> ''SETKEYS'' \<notin> set dispatchedCommands \<and>
   parseOneLineAction False ''SETKEYS'' (istringstream []) = Inr None"
  using parseOneLineAction_other_commands [of "''APAGE''" False "istringstream []"]
    parseOneLineAction_other_commands [of "''SETKEYS''" False "istringstream []"]
  by (simp add: notAllowedHere_def dispatchedCommands_def)

text \<open>
  Claim C8. Each command of the set APAGE, CENTERWINDOW, CWTEXT, MENU, PAGESEND, PAGESSTART,
  SKLINE that reaches \<open>parseOneLineAction\<close> fails with an error naming it, and every command
  outside the set and without a branch of its own is accepted: no action, no error. The
  loader breaks this for END. It asserts that END never reaches \<open>parseOneLineAction\<close>, yet
  END is outside the set, has no branch, and does reach it from the line \<^verbatim>\<open>//END x\<close>,
  which is not the end marker; there the assertion fails and the load stops instead of
  passing the line over.
\<close>

theorem parseOneLineAction_END_asserted:
  "''END'' \<notin> set notAllowedHere \<and> ''END'' \<notin> set dispatchedCommands \<and>
   parseOneLineAction False ''END'' (snd (extract_string (istringstream ''END x'') [])) =
     Inl assertion_failed \<and>
   loadScripts False ''s\<newline>//END x\<newline>//END\<newline>'' = Some (Inl assertion_failed)"
  by (simp add: dispatchedCommands_def parser_defs loop_simps stream_defs)

text \<open>A bare APAGE outside a block of pages, and a command the loader does not know.\<close>

lemma bare_APAGE_example:
  "loadScripts ndebug ''s\<newline>//APAGE\<newline>//END\<newline>'' =
     Some (Inl (invalid_argument ''The command APAGE is not allowed in this context''))"
  by (simp add: parser_defs loop_simps stream_defs)

lemma unknown_command_example:
  "loadScripts ndebug ''s\<newline>//SETKEYS 1 2\<newline>//FADEIN\<newline>//END\<newline>'' =
     Some (Inr [''s'' \<mapsto> [FadeIn]])"
  by (simp add: parser_defs loop_simps stream_defs)

subsection \<open>MENU\<close>

text \<open>The script only grows at its end, line after line.\<close>

lemma parseScript_consumeLine_appends:
  assumes "parseScript_consumeLine ndebug command l script s = Inr (script1, s1)"
  shows "\<exists>added. script1 = script @ added"
  using assms
  by (auto simp: parseScript_consumeLine_def split: if_splits sum.splits prod.splits option.splits)

lemma parseScriptLines_Script_appends:
  assumes "parseScriptLines_Script ndebug s script = Inr (final, s')"
  shows "\<exists>added. final = script @ added"
  using assms
proof (induction ndebug s script rule: parseScriptLines_Script.induct)
  case (1 ndebug s script)
  note unf = parseScriptLines_Script.simps [of ndebug s script]
  show ?case
  proof (cases "readScriptLine s ''END''")
    case (Exhausted s1)
    with "1.prems" show ?thesis
      unfolding unf by simp
  next
    case (EndMarker s1)
    with "1.prems" show ?thesis
      unfolding unf by simp
  next
    case (OtherLine s1)
    with "1.prems" have "parseScriptLines_Script ndebug s1 script = Inr (final, s')"
      unfolding unf by simp
    from "1.IH"(1) [OF OtherLine this] show ?thesis .
  next
    case (CommandLine command l s1)
    with "1.prems" obtain script1 s2
      where c: "parseScript_consumeLine ndebug command l script s1 = Inr (script1, s2)"
        and r: "parseScriptLines_Script ndebug s2 script1 = Inr (final, s')"
      unfolding unf by (auto split: sum.splits)
    from "1.IH"(2) [OF CommandLine c refl r] obtain added2 where "final = script1 @ added2"
      by blast
    moreover from parseScript_consumeLine_appends [OF c] obtain added1
      where "script1 = script @ added1"
      by blast
    ultimately show ?thesis by simp
  qed
qed

text \<open>
  Claim C9. When the loop of \<open>parseScript\<close> reads a MENU line with the integer \<open>slot\<close>, it
  goes on with the script extended by exactly \<open>ConfigurePersistentMenuSelection slot\<close> and
  then \<open>ScheduleFadeInBeforeNextWaitState\<close>, and the finished script has the two next to
  each other right after what was there before the line.
\<close>

theorem MENU_two_actions:
  assumes "readScriptLine s ''END'' = CommandLine ''MENU'' lineTextStream s1"
    and "extract_int lineTextStream 0 = (slot, l1)"
  shows "parseScriptLines_Script ndebug s script =
           parseScriptLines_Script ndebug s1
             (script @ [ConfigurePersistentMenuSelection slot,
                        ScheduleFadeInBeforeNextWaitState]) \<and>
         (\<forall>final s'. parseScriptLines_Script ndebug s script = Inr (final, s') \<longrightarrow>
            (\<exists>added. final = script @ [ConfigurePersistentMenuSelection slot,
                                         ScheduleFadeInBeforeNextWaitState] @ added))"
proof -
  have step: "parseScriptLines_Script ndebug s script =
           parseScriptLines_Script ndebug s1
             (script @ [ConfigurePersistentMenuSelection slot,
                        ScheduleFadeInBeforeNextWaitState])"
    using assms
    by (simp add: parseScriptLines_Script.simps [of ndebug s script] parseScript_consumeLine_def)
  have "\<exists>added. final = script @ [ConfigurePersistentMenuSelection slot,
                                   ScheduleFadeInBeforeNextWaitState] @ added"
    if "parseScriptLines_Script ndebug s script = Inr (final, s')" for final s'
    using parseScriptLines_Script_appends [OF that [unfolded step]] by simp
  with step show ?thesis by blast
qed

theorem MENU_two_actions_witness:
  "readScriptLine (istringstream ''//MENU 3\<newline>//WAIT\<newline>//END\<newline>'') ''END'' =
     CommandLine ''MENU''
       \<lparr>buf = ''MENU 3'', gpos = 4, eofbit = False, failbit = False\<rparr>
       \<lparr>buf = ''//MENU 3\<newline>//WAIT\<newline>//END\<newline>'', gpos = 9, eofbit = False, failbit = False\<rparr> \<and>
   extract_int \<lparr>buf = ''MENU 3'', gpos = 4, eofbit = False, failbit = False\<rparr> 0 =
     (3, \<lparr>buf = ''MENU 3'', gpos = 6, eofbit = True, failbit = False\<rparr>) \<and>
   parseScriptLines_Script False (istringstream ''//MENU 3\<newline>//WAIT\<newline>//END\<newline>'') [FadeIn] =
     Inr ([FadeIn, ConfigurePersistentMenuSelection 3, ScheduleFadeInBeforeNextWaitState,
           WaitForUserInput],
          \<lparr>buf = ''//MENU 3\<newline>//WAIT\<newline>//END\<newline>'', gpos = 22, eofbit = False, failbit = False\<rparr>)"
proof -
  have h1: "readScriptLine (istringstream ''//MENU 3\<newline>//WAIT\<newline>//END\<newline>'') ''END'' =
     CommandLine ''MENU''
       \<lparr>buf = ''MENU 3'', gpos = 4, eofbit = False, failbit = False\<rparr>
       \<lparr>buf = ''//MENU 3\<newline>//WAIT\<newline>//END\<newline>'', gpos = 9, eofbit = False, failbit = False\<rparr>"
    by (simp add: readScriptLine_def stream_defs)
  have h2: "extract_int \<lparr>buf = ''MENU 3'', gpos = 4, eofbit = False, failbit = False\<rparr> 0 =
     (3, \<lparr>buf = ''MENU 3'', gpos = 6, eofbit = True, failbit = False\<rparr>)"
    by (simp add: stream_defs)
  have rest: "parseScriptLines_Script False
      \<lparr>buf = ''//MENU 3\<newline>//WAIT\<newline>//END\<newline>'', gpos = 9, eofbit = False, failbit = False\<rparr>
      ([FadeIn] @ [ConfigurePersistentMenuSelection 3, ScheduleFadeInBeforeNextWaitState]) =
     Inr ([FadeIn, ConfigurePersistentMenuSelection 3, ScheduleFadeInBeforeNextWaitState,
           WaitForUserInput],
          \<lparr>buf = ''//MENU 3\<newline>//WAIT\<newline>//END\<newline>'', gpos = 22, eofbit = False, failbit = False\<rparr>)"
    by (simp add: parser_defs loop_simps stream_defs)
  from MENU_two_actions [OF h1 h2, of False "[FadeIn]"] rest h1 h2 show ?thesis
    by simp
qed

text \<open>A script that is one MENU line.\<close>

lemma MENU_script_example:
  "loadScripts ndebug ''s\<newline>//MENU 3\<newline>//END\<newline>'' =
     Some (Inr [''s'' \<mapsto> [ConfigurePersistentMenuSelection 3,
                              ScheduleFadeInBeforeNextWaitState]])"
  by (simp add: parser_defs loop_simps stream_defs)

subsection \<open>Pages\<close>






subsection \<open>The end of a message box\<close>

text \<open>
  On a good stream \<open>tellg\<close> gives the position and changes nothing, and \<open>seekg\<close> after a
  line was read puts the stream back as it was, at the position asked for.
\<close>

lemma tellg_good:
  "good s \<Longrightarrow> tellg s = (Some (gpos s), s)"
  by (simp add: tellg_def sentry_def)

lemma getline_good:
  assumes "getline s old delim = (str, s1)" and "\<not> failbit s1"
  shows "good s"
  using assms by (auto simp: getline_def sentry_def split: if_splits)

lemma seekg_back:
  assumes "good s" and "getline s old delim = (str, s1)" and "\<not> failbit s1"
    and "p \<le> length (buf s)"
  shows "seekg s1 (Some p) = s\<lparr>gpos := p\<rparr>"
  using assms
  by (auto simp: seekg_def sentry_def getline_def good_def split: if_splits)

text \<open>
  Claim C4. When the loop of \<open>parseMessageBoxTextDefinition\<close> reads a command line whose
  command is neither CWTEXT nor SKLINE, it returns the lines it has so far and the stream
  moved back to the saved position. With the position that \<open>tellg\<close> gave before the line,
  the stream returned is the very stream from before the line, so the loop of \<open>parseScript\<close>
  reads that line next: it gets the command of the line, or the end marker when the line is
  one.
\<close>

theorem message_box_rewinds:
  assumes "getline s [] (CHR 0x0A) = (line0, s1)"
    and "\<not> failbit s1"
    and "isCommand (trim line0)"
    and "extract_string (istringstream (stripCommandPrefix (trim line0))) [] =
           (command, lineTextStream)"
    and "trim command \<noteq> ''CWTEXT''"
    and "trim command \<noteq> ''SKLINE''"
  shows "tellg s = (Some (gpos s), s) \<and>
         parseMessageBoxTextDefinition_lines s (Some (gpos s)) messageLines =
           Inr (messageLines, s) \<and>
         (p \<le> length (buf s) \<longrightarrow>
            parseMessageBoxTextDefinition_lines s (Some p) messageLines =
              Inr (messageLines, s\<lparr>gpos := p\<rparr>)) \<and>
         readScriptLine s endMarker =
           (if stripCommandPrefix (trim line0) = endMarker then EndMarker s1
            else CommandLine (trim command) lineTextStream s1)"
proof -
  note g = getline_good [OF assms(1,2)]
  have stop: "parseMessageBoxTextDefinition_lines s startOfLine messageLines =
      Inr (messageLines, seekg s1 startOfLine)" for startOfLine
    using assms
    by (simp add: parseMessageBoxTextDefinition_lines.simps [of s startOfLine messageLines])
  have inside: "gpos s \<le> length (buf s)"
    using getline_progress [OF assms(1,2)] by simp
  have here: "parseMessageBoxTextDefinition_lines s (Some (gpos s)) messageLines =
      Inr (messageLines, s)"
    unfolding stop seekg_back [OF g assms(1,2) inside] by simp
  have earlier: "parseMessageBoxTextDefinition_lines s (Some p) messageLines =
      Inr (messageLines, s\<lparr>gpos := p\<rparr>)" if "p \<le> length (buf s)"
    unfolding stop seekg_back [OF g assms(1,2) that] by simp
  have again: "readScriptLine s endMarker =
      (if stripCommandPrefix (trim line0) = endMarker then EndMarker s1
       else CommandLine (trim command) lineTextStream s1)"
    using assms(1-4) by (simp add: readScriptLine_def)
  from tellg_good [OF g] here earlier again show ?thesis
    by blast
qed

text \<open>
  A box with CWTEXT Hi and SKLINE, then FADEOUT: the position saved after the SKLINE line is
  44, and the script has \<open>FadeOut\<close> right after the box.
\<close>

lemma message_box_example_line:
  "getline
     \<lparr>buf = ''s\<newline>//CENTERWINDOW 1 2 3\<newline>//CWTEXT Hi\<newline>//SKLINE\<newline>//FADEOUT\<newline>//END\<newline>'',
      gpos = 44, eofbit = False, failbit = False\<rparr> [] (CHR 0x0A) =
   (''//FADEOUT'',
    \<lparr>buf = ''s\<newline>//CENTERWINDOW 1 2 3\<newline>//CWTEXT Hi\<newline>//SKLINE\<newline>//FADEOUT\<newline>//END\<newline>'',
     gpos = 54, eofbit = False, failbit = False\<rparr>)"
  by (simp add: stream_defs)

lemma message_box_example_command:
  "extract_string (istringstream (stripCommandPrefix (trim ''//FADEOUT''))) [] =
   (''FADEOUT'', \<lparr>buf = ''FADEOUT'', gpos = 7, eofbit = True, failbit = False\<rparr>)"
  by (simp add: stream_defs)

theorem message_box_rewinds_witness:
  "isCommand (trim ''//FADEOUT'') \<and>
   trim ''FADEOUT'' \<noteq> ''CWTEXT'' \<and> trim ''FADEOUT'' \<noteq> ''SKLINE'' \<and>
   parseMessageBoxTextDefinition_lines
     \<lparr>buf = ''s\<newline>//CENTERWINDOW 1 2 3\<newline>//CWTEXT Hi\<newline>//SKLINE\<newline>//FADEOUT\<newline>//END\<newline>'',
      gpos = 44, eofbit = False, failbit = False\<rparr> (Some 44) [''Hi'', []] =
   Inr ([''Hi'', []],
        \<lparr>buf = ''s\<newline>//CENTERWINDOW 1 2 3\<newline>//CWTEXT Hi\<newline>//SKLINE\<newline>//FADEOUT\<newline>//END\<newline>'',
         gpos = 44, eofbit = False, failbit = False\<rparr>) \<and>
   loadScripts False
     ''s\<newline>//CENTERWINDOW 1 2 3\<newline>//CWTEXT Hi\<newline>//SKLINE\<newline>//FADEOUT\<newline>//END\<newline>'' =
   Some (Inr [''s'' \<mapsto> [ShowMessageBox 1 3 2 [''Hi'', []], FadeOut]])"
proof -
  have h3: "\<not> failbit \<lparr>buf = ''s\<newline>//CENTERWINDOW 1 2 3\<newline>//CWTEXT Hi\<newline>//SKLINE\<newline>//FADEOUT\<newline>//END\<newline>'',
     gpos = 54, eofbit = False, failbit = False\<rparr>"
    by simp
  have h4: "isCommand (trim ''//FADEOUT'')"
    by (simp add: stream_defs)
  have h6: "trim ''FADEOUT'' \<noteq> ''CWTEXT''" and h7: "trim ''FADEOUT'' \<noteq> ''SKLINE''"
    by (simp_all add: stream_defs)
  have whole: "loadScripts False
     ''s\<newline>//CENTERWINDOW 1 2 3\<newline>//CWTEXT Hi\<newline>//SKLINE\<newline>//FADEOUT\<newline>//END\<newline>'' =
   Some (Inr [''s'' \<mapsto> [ShowMessageBox 1 3 2 [''Hi'', []], FadeOut]])"
    by (simp add: parser_defs loop_simps stream_defs)
  from message_box_rewinds
    [OF message_box_example_line h3 h4 message_box_example_command h6 h7,
     of "[''Hi'', []]" 0 "''END''"]
  have "parseMessageBoxTextDefinition_lines
     \<lparr>buf = ''s\<newline>//CENTERWINDOW 1 2 3\<newline>//CWTEXT Hi\<newline>//SKLINE\<newline>//FADEOUT\<newline>//END\<newline>'',
      gpos = 44, eofbit = False, failbit = False\<rparr> (Some 44) [''Hi'', []] =
   Inr ([''Hi'', []],
        \<lparr>buf = ''s\<newline>//CENTERWINDOW 1 2 3\<newline>//CWTEXT Hi\<newline>//SKLINE\<newline>//FADEOUT\<newline>//END\<newline>'',
         gpos = 44, eofbit = False, failbit = False\<rparr>)"
    by simp
  with h4 h6 h7 whole show ?thesis
    by blast
qed

text \<open>
  The same box with a carriage return at the end of the CWTEXT line; lines that are no
  commands between the lines of the box, which do not change the result; and END right after
  the box, which ends the script.
\<close>

lemma message_box_examples:
  "loadScripts ndebug
     (''s\<newline>//CENTERWINDOW 1 2 3\<newline>//CWTEXT Hi'' @ [CHR 0x0D] @
      ''\<newline>//SKLINE\<newline>//FADEOUT\<newline>//END\<newline>'') =
   Some (Inr [''s'' \<mapsto> [ShowMessageBox 1 3 2 [''Hi'', []], FadeOut]])"
  "loadScripts ndebug
     ''s\<newline>//CENTERWINDOW 1 2 3\<newline>//CWTEXT Hi\<newline>\<newline>a remark\<newline>//SKLINE\<newline>\<newline>//FADEOUT\<newline>//END'' =
   Some (Inr [''s'' \<mapsto> [ShowMessageBox 1 3 2 [''Hi'', []], FadeOut]])"
  "loadScripts ndebug ''s\<newline>//CENTERWINDOW 1 2 3\<newline>//CWTEXT Hi\<newline>//END\<newline>'' =
   Some (Inr [''s'' \<mapsto> [ShowMessageBox 1 3 2 [''Hi'']]])"
  by (simp_all add: parser_defs loop_simps stream_defs)

subsection \<open>Missing end markers\<close>

text \<open>
  A loop of \<open>parseScriptLines\<close> that returns has read its end marker: the stream it returns
  is the one right after a line equal to the marker, read at or after the place where the
  loop started.
\<close>

lemma parseScriptLines_Script_end:
  assumes "parseScriptLines_Script ndebug s script = Inr (final, s')"
  shows "\<exists>s0. readScriptLine s0 ''END'' = EndMarker s' \<and> buf s0 = buf s \<and> gpos s \<le> gpos s0"
  using assms
proof (induction ndebug s script rule: parseScriptLines_Script.induct)
  case (1 ndebug s script)
  note unf = parseScriptLines_Script.simps [of ndebug s script]
  show ?case
  proof (cases "readScriptLine s ''END''")
    case (Exhausted s1)
    with "1.prems" show ?thesis
      unfolding unf by simp
  next
    case (EndMarker s1)
    with "1.prems" have "s' = s1"
      unfolding unf by simp
    with EndMarker show ?thesis by auto
  next
    case (OtherLine s1)
    with "1.prems" have "parseScriptLines_Script ndebug s1 script = Inr (final, s')"
      unfolding unf by simp
    from "1.IH"(1) [OF OtherLine this] obtain s0
      where "readScriptLine s0 ''END'' = EndMarker s'" "buf s0 = buf s1" "gpos s1 \<le> gpos s0"
      by blast
    with readScriptLine_progress(2) [OF OtherLine] show ?thesis
      by (intro exI [of _ s0]) simp
  next
    case (CommandLine command l s1)
    with "1.prems" obtain script1 s2
      where c: "parseScript_consumeLine ndebug command l script s1 = Inr (script1, s2)"
        and r: "parseScriptLines_Script ndebug s2 script1 = Inr (final, s')"
      unfolding unf by (auto split: sum.splits)
    from "1.IH"(2) [OF CommandLine c refl r] obtain s0
      where "readScriptLine s0 ''END'' = EndMarker s'" "buf s0 = buf s2" "gpos s2 \<le> gpos s0"
      by blast
    with readScriptLine_progress(3) [OF CommandLine] parseScript_consumeLine_position [OF c]
    show ?thesis
      by (intro exI [of _ s0]) simp
  qed
qed



text \<open>The message names the marker.\<close>

lemma missing_end_marker_message:
  "missingEndMarker ''END'' =
     invalid_argument (''Missing end marker '' @ [CHR 0x27] @ ''END'' @ [CHR 0x27] @
                       '' in Duke Script file'')"
  "missingEndMarker ''PAGESEND'' =
     invalid_argument (''Missing end marker '' @ [CHR 0x27] @ ''PAGESEND'' @ [CHR 0x27] @
                       '' in Duke Script file'')"
  by (simp_all add: missingEndMarker_def)



subsection \<open>Two scripts with one name\<close>

text \<open>What is in the bundle stays in it, through \<open>emplace\<close> and through the loop.\<close>

lemma emplace_keeps:
  "bundle name = Some script \<Longrightarrow> emplace bundle name1 script1 name = Some script"
  by (auto simp: emplace_def split: option.splits)

lemma loadScripts_loop_keeps:
  assumes "loadScripts_loop ndebug s bundle = Some r"
  shows "\<forall>bundle1. r = Inr bundle1 \<longrightarrow>
           (\<forall>name script. bundle name = Some script \<longrightarrow> bundle1 name = Some script)"
proof (rule loadScripts_loop.raw_induct
    [where P = "\<lambda>n s b r. \<forall>b1. r = Inr b1 \<longrightarrow>
                  (\<forall>name script. b name = Some script \<longrightarrow> b1 name = Some script)",
     OF _ assms], goal_cases)
  case (1 loop n s b r)
  note IH = 1(1) and body = 1(2)
  show ?case
  proof (cases "eofbit s")
    case True
    with body show ?thesis by auto
  next
    case False
    obtain scriptName s1 where ex: "extract_string (skipWhiteSpace s) [] = (scriptName, s1)"
      by (cases "extract_string (skipWhiteSpace s) []")
    show ?thesis
    proof (cases "trim scriptName \<noteq> []")
      case named: True
      show ?thesis
      proof (cases "parseScript n s1")
        case (Inl e)
        with body False ex named show ?thesis by auto
      next
        case (Inr res)
        obtain script s2 where res: "res = (script, s2)" by (cases res)
        with body False ex named Inr
        have "loop n s2 (emplace b (trim scriptName) script) = Some r"
          by simp
        from IH [OF this] emplace_keeps [of b _ _ "trim scriptName" script]
        show ?thesis by blast
      qed
    next
      case False
      with body \<open>\<not> eofbit s\<close> ex have "loop n s1 b = Some r"
        by simp
      from IH [OF this] show ?thesis .
    qed
  qed
qed

text \<open>
  The loop of \<open>loadScripts\<close> ends on every text. Each turn either sets \<^verbatim>\<open>eofbit\<close> or reads
  a script up to its END line, which moves the position forward and leaves \<^verbatim>\<open>failbit\<close>
  clear.
\<close>

lemma skipWhiteSpace_failbit:
  "\<not> failbit s \<Longrightarrow> \<not> failbit (skipWhiteSpace s)"
proof (induction s rule: skipWhiteSpace.induct)
  case (1 s)
  show ?case
  proof (cases "eofbit s")
    case True
    with "1.prems" show ?thesis by (simp add: skipWhiteSpace.simps [of s])
  next
    case False
    with "1.prems" have g: "good s" by (simp add: good_def)
    obtain c s1 where pk: "peek s = (c, s1)" by (cases "peek s")
    with g have s1: "\<not> failbit s1"
      by (auto simp: peek_def sentry_def good_def split: if_splits)
    show ?thesis
    proof (cases "\<exists>ch. c = Some ch \<and> isspace ch")
      case True
      then obtain ch where ch: "c = Some ch" "isspace ch" by blast
      from pk g ch have "\<not> failbit (snd (get s1))"
        by (auto simp: peek_def get_def sentry_def good_def split: if_splits)
      from "1.IH" [OF False pk [symmetric] ch this] False pk ch show ?thesis
        by (simp add: skipWhiteSpace.simps [of s])
    next
      case no: False
      with False pk s1 show ?thesis
        by (cases c) (auto simp: skipWhiteSpace.simps [of s])
    qed
  qed
qed

lemma trim_token:
  assumes "tok \<noteq> []" and "\<forall>c\<in>set tok. \<not> isspace c"
  shows "trim tok = tok"
proof -
  from assms have "\<not> isspace (hd tok)" "\<not> isspace (last tok)"
    by simp_all
  with assms(1) have "dropWhile isspace (rev tok) = rev tok" "dropWhile isspace tok = tok"
    by (simp_all add: dropWhile_eq_self_iff hd_rev)
  then show ?thesis
    by (simp add: trim_def trim_left_def trim_right_def)
qed

lemma extract_string_name:
  assumes "extract_string sa [] = (scriptName, s1)" and "\<not> failbit sa"
  shows "buf s1 = buf sa \<and> gpos sa \<le> gpos s1 \<and>
         (trim scriptName = [] \<longrightarrow> eofbit s1) \<and> (trim scriptName \<noteq> [] \<longrightarrow> \<not> failbit s1)"
proof (cases "good sa")
  case False
  with assms show ?thesis
    by (auto simp: extract_string_def sentry_def good_def trim_def trim_left_def trim_right_def)
next
  case True
  define sk where "sk = sa\<lparr>gpos := gpos sa + length (takeWhile isspace (remaining sa))\<rparr>"
  show ?thesis
  proof (cases "gpos sk < length (buf sk)")
    case False
    with assms True show ?thesis
      by (auto simp: extract_string_def sentry_def sk_def trim_def trim_left_def trim_right_def)
  next
    case inside: True
    have rem: "remaining sk = dropWhile isspace (remaining sa)"
      by (simp add: remaining_def sk_def dropWhile_eq_drop drop_drop add.commute)
    from inside have ne: "remaining sk \<noteq> []"
      by (simp add: remaining_def)
    with rem have first: "\<not> isspace (hd (remaining sk))"
      by (metis hd_dropWhile)
    define tok where "tok = takeWhile (\<lambda>c. \<not> isspace c) (remaining sk)"
    from ne first have tok_ne: "tok \<noteq> []"
      unfolding tok_def by (cases "remaining sk") auto
    have tok_plain: "\<forall>c\<in>set tok. \<not> isspace c"
      unfolding tok_def by (auto dest: set_takeWhileD)
    from assms True inside
    have name: "scriptName = tok"
      and s1: "s1 = sk\<lparr>gpos := gpos sk + length tok,
                        eofbit := (length tok = length (remaining sk)),
                        failbit := (tok = [])\<rparr>"
      by (auto simp: extract_string_def sentry_def sk_def tok_def)
    from trim_token [OF tok_ne tok_plain] tok_ne name s1 show ?thesis
      by (simp add: sk_def)
  qed
qed

lemma parseScript_returns_after_end:
  assumes "parseScript ndebug s1 = Inr (script, s2)"
  shows "buf s2 = buf s1 \<and> gpos s1 < gpos s2 \<and> gpos s2 \<le> length (buf s1) \<and> \<not> failbit s2"
proof -
  from parseScriptLines_Script_end [OF assms [unfolded parseScript_def]] obtain s0
    where e: "readScriptLine s0 ''END'' = EndMarker s2"
      and b: "buf s0 = buf (skipWhiteSpace s1)" and p: "gpos (skipWhiteSpace s1) \<le> gpos s0"
    by blast
  from readScriptLine_progress(1) [OF e] b p skipWhiteSpace_position [of s1]
  show ?thesis by simp
qed

lemma loadScripts_loop_returns:
  assumes "eofbit s \<or> \<not> failbit s"
  shows "\<exists>r. loadScripts_loop ndebug s b = Some r"
  using assms
proof (induction "length (buf s) - gpos s" arbitrary: s b rule: less_induct)
  case less
  note unf = loadScripts_loop.simps [of ndebug s b]
  show ?case
  proof (cases "eofbit s")
    case True
    then show ?thesis unfolding unf by simp
  next
    case False
    with less.prems have nf: "\<not> failbit s" by simp
    obtain scriptName s1 where ex: "extract_string (skipWhiteSpace s) [] = (scriptName, s1)"
      by (cases "extract_string (skipWhiteSpace s) []")
    note n = extract_string_name [OF ex skipWhiteSpace_failbit [OF nf]]
    note w = skipWhiteSpace_position [of s]
    show ?thesis
    proof (cases "trim scriptName = []")
      case True
      with n have "eofbit s1" by simp
      then have "loadScripts_loop ndebug s1 b = Some (Inr b)"
        by (simp add: loadScripts_loop.simps [of ndebug s1 b])
      with False ex True show ?thesis
        unfolding unf by simp
    next
      case named: False
      show ?thesis
      proof (cases "parseScript ndebug s1")
        case (Inl e)
        with False ex named show ?thesis
          unfolding unf by simp
      next
        case (Inr res)
        obtain script s2 where res: "res = (script, s2)" by (cases res)
        note e = parseScript_returns_after_end [OF Inr [unfolded res]]
        from e n w have "length (buf s2) - gpos s2 < length (buf s) - gpos s"
          by auto
        from less.hyps [OF this, of "emplace b (trim scriptName) script"] e
        obtain r where "loadScripts_loop ndebug s2 (emplace b (trim scriptName) script) = Some r"
          by auto
        with False ex named Inr res show ?thesis
          unfolding unf by simp
      qed
    qed
  qed
qed

text \<open>
  Claim C1, amended. When two scripts have the same name, the bundle that \<open>loadScripts\<close>
  returns keeps the script of the first one: an entry of the bundle is never replaced by
  what the loop reads later. The later script is parsed all the same, to the end of its
  body, and the loop goes on from there with the result of \<open>emplace\<close>, which is the bundle
  unchanged when the name is taken. \<open>loadScripts\<close> returns on every text, a bundle or an
  error.
\<close>

theorem first_script_wins:
  "(\<forall>bundle1. loadScripts_loop ndebug s bundle = Some (Inr bundle1) \<longrightarrow>
      bundle name = Some script \<longrightarrow> bundle1 name = Some script) \<and>
   (\<not> eofbit s \<and> extract_string (skipWhiteSpace s) [] = (scriptName, s1) \<and>
    trim scriptName \<noteq> [] \<and> parseScript ndebug s1 = Inr (script1, s2) \<longrightarrow>
      loadScripts_loop ndebug s bundle =
        loadScripts_loop ndebug s2 (emplace bundle (trim scriptName) script1)) \<and>
   (bundle name = None \<longrightarrow> emplace bundle name script1 = bundle(name \<mapsto> script1)) \<and>
   (bundle name = Some script \<longrightarrow> emplace bundle name script1 = bundle) \<and>
   (\<exists>r. loadScripts ndebug scriptSource = Some r)"
proof -
  have keeps: "bundle1 name = Some script"
    if "loadScripts_loop ndebug s bundle = Some (Inr bundle1)" "bundle name = Some script"
    for bundle1
    using loadScripts_loop_keeps [OF that(1)] that(2) by blast
  have step: "loadScripts_loop ndebug s bundle =
      loadScripts_loop ndebug s2 (emplace bundle (trim scriptName) script1)"
    if "\<not> eofbit s" "extract_string (skipWhiteSpace s) [] = (scriptName, s1)"
      "trim scriptName \<noteq> []" "parseScript ndebug s1 = Inr (script1, s2)"
    using that by (simp add: loadScripts_loop.simps [of ndebug s "bundle"])
  have fresh: "emplace bundle name script1 = bundle(name \<mapsto> script1)" if "bundle name = None"
    using that by (simp add: emplace_def)
  have taken: "emplace bundle name script1 = bundle" if "bundle name = Some script"
    using that by (simp add: emplace_def)
  have returns: "\<exists>r. loadScripts ndebug scriptSource = Some r"
    unfolding loadScripts_def
    by (rule loadScripts_loop_returns) (simp add: istringstream_def)
  from keeps step fresh taken returns show ?thesis
    by blast
qed

text \<open>
  The claim as first stated has the later script replace the earlier one. Here the second
  script named \<open>a\<close> is \<open>[FadeOut]\<close>, and the bundle has \<open>[FadeIn]\<close>, the first.
\<close>

theorem later_script_does_not_replace:
  "loadScripts False ''a\<newline>//FADEIN\<newline>//END\<newline>a\<newline>//FADEOUT\<newline>//END\<newline>'' =
     Some (Inr [''a'' \<mapsto> [FadeIn]]) \<and>
   parseScript False
     \<lparr>buf = ''a\<newline>//FADEIN\<newline>//END\<newline>a\<newline>//FADEOUT\<newline>//END\<newline>'', gpos = 18,
      eofbit = False, failbit = False\<rparr> =
     Inr ([FadeOut],
          \<lparr>buf = ''a\<newline>//FADEIN\<newline>//END\<newline>a\<newline>//FADEOUT\<newline>//END\<newline>'', gpos = 35,
           eofbit = False, failbit = False\<rparr>) \<and>
   [FadeIn] \<noteq> [FadeOut]"
  by (simp add: parser_defs loop_simps stream_defs)

theorem first_script_wins_witness:
  "loadScripts_loop False
     \<lparr>buf = ''a\<newline>//FADEIN\<newline>//END\<newline>a\<newline>//FADEOUT\<newline>//END\<newline>'', gpos = 17,
      eofbit = False, failbit = False\<rparr> [''a'' \<mapsto> [FadeIn]] =
     Some (Inr [''a'' \<mapsto> [FadeIn]]) \<and>
   [''a'' \<mapsto> [FadeIn]] ''a'' = Some [FadeIn] \<and>
   loadScripts False ''a\<newline>//FADEIN\<newline>//END\<newline>b\<newline>//FADEOUT\<newline>//END\<newline>'' =
     Some (Inr [''a'' \<mapsto> [FadeIn], ''b'' \<mapsto> [FadeOut]])"
proof -
  have run: "loadScripts_loop False
     \<lparr>buf = ''a\<newline>//FADEIN\<newline>//END\<newline>a\<newline>//FADEOUT\<newline>//END\<newline>'', gpos = 17,
      eofbit = False, failbit = False\<rparr> [''a'' \<mapsto> [FadeIn]] =
     Some (Inr [''a'' \<mapsto> [FadeIn]])"
    by (simp add: parser_defs loop_simps stream_defs)
  have two: "loadScripts False ''a\<newline>//FADEIN\<newline>//END\<newline>b\<newline>//FADEOUT\<newline>//END\<newline>'' =
     Some (Inr [''a'' \<mapsto> [FadeIn], ''b'' \<mapsto> [FadeOut]])"
    by (simp add: parser_defs loop_simps stream_defs)
  from first_script_wins
    [of False
        "\<lparr>buf = ''a\<newline>//FADEIN\<newline>//END\<newline>a\<newline>//FADEOUT\<newline>//END\<newline>'', gpos = 17,
          eofbit = False, failbit = False\<rparr>"
        "[''a'' \<mapsto> [FadeIn]]" "''a''" "[FadeIn]"] run
  have "[''a'' \<mapsto> [FadeIn]] ''a'' = Some [FadeIn]"
    by simp
  with run two show ?thesis
    by blast
qed

end
